theory Spec2Isabelle
  imports Complex_Main "HOL-Library.Multiset" "HOL-Library.Char_ord"
    "HOL-Library.List_Lexorder" "HOL-Library.Product_Lexorder"
begin

section \<open>The Wordle solver of \<^verbatim>\<open>wordle_solver.py\<close> and \<^verbatim>\<open>main.py\<close>\<close>

text \<open>
  Conventions of the embedding.
  \<^item> A Python \<^verbatim>\<open>str\<close> is a \<^typ>\<open>string\<close>; the words of the game are ASCII, and
    code points beyond ASCII are outside the model. Strings are compared
    lexicographically by character code, as Python does.
  \<^item> A feedback pattern (a Python tuple of ints) is an \<^typ>\<open>int list\<close>.
  \<^item> A Python \<^verbatim>\<open>float\<close> is a \<^typ>\<open>real\<close>. The scoring functions come twice: first
    with every float operation read as the exact operation, then with the rounding of
    each operation as a parameter (\<open>float_ops\<close>).
  \<^item> An exception is a value of type \<open>error\<close>, carrying Python's message; a function
    that can raise returns \<open>error + 'a\<close>, with \<open>Inl\<close> for the exception.
  \<^item> \<^verbatim>\<open>print\<close> calls are left out: no function reads what was printed.
  \<^item> The external collaborators (\<^verbatim>\<open>wordfreq.top_n_list\<close>,
    \<^verbatim>\<open>wordfreq.zipf_frequency\<close>, the scraped list of past answers) are parameters.
\<close>

datatype error = IndexError string | ZeroDivisionError string | ValueError string

subsection \<open>Pattern functions\<close>

text \<open>
  The first loop of \<^verbatim>\<open>feedback_pattern\<close> (greens). \<open>i\<close> is the index of
  \<^verbatim>\<open>enumerate\<close>, the string argument is the part of \<^verbatim>\<open>guess\<close> still to visit.
  \<^verbatim>\<open>target[i]\<close> raises beyond the end of \<^verbatim>\<open>target\<close>, and
  \<^verbatim>\<open>pattern[i] = 2\<close> beyond the five cells of \<^verbatim>\<open>pattern\<close>.
  \<^verbatim>\<open>target_chars\<close> is as long as \<^verbatim>\<open>target\<close>, so
  \<^verbatim>\<open>target_chars[i] = None\<close> is in range once \<^verbatim>\<open>target[i]\<close> was.
\<close>

fun greens ::
  "nat \<Rightarrow> string \<Rightarrow> string \<Rightarrow> int list \<Rightarrow> char option list
    \<Rightarrow> error + (int list \<times> char option list)" where
  "greens i [] target pattern target_chars = Inr (pattern, target_chars)"
| "greens i (ch # rest) target pattern target_chars =
     (if length target \<le> i then Inl (IndexError ''string index out of range'')
      else if target ! i = ch then
        (if length pattern \<le> i
         then Inl (IndexError ''list assignment index out of range'')
         else greens (Suc i) rest target (pattern[i := 2]) (target_chars[i := None]))
      else greens (Suc i) rest target pattern target_chars)"

text \<open>\<^verbatim>\<open>list.index\<close>: the first position of \<open>x\<close>; called only when \<open>x\<close> occurs.\<close>

fun index_of :: "'a list \<Rightarrow> 'a \<Rightarrow> nat" where
  "index_of [] x = 0"
| "index_of (y # ys) x = (if y = x then 0 else Suc (index_of ys x))"

text \<open>
  The second loop (yellows). \<^verbatim>\<open>pattern[i]\<close> raises beyond the five cells of
  \<^verbatim>\<open>pattern\<close>; \<^verbatim>\<open>ch in target_chars\<close> compares \<open>ch\<close> with the letters not yet
  replaced by \<^verbatim>\<open>None\<close>.
\<close>

fun yellows ::
  "nat \<Rightarrow> string \<Rightarrow> int list \<Rightarrow> char option list
    \<Rightarrow> error + (int list \<times> char option list)" where
  "yellows i [] pattern target_chars = Inr (pattern, target_chars)"
| "yellows i (ch # rest) pattern target_chars =
     (if length pattern \<le> i then Inl (IndexError ''list index out of range'')
      else if pattern ! i = 0 \<and> Some ch \<in> set target_chars then
        yellows (Suc i) rest (pattern[i := 1])
          (target_chars[index_of target_chars (Some ch) := None])
      else yellows (Suc i) rest pattern target_chars)"

definition feedback_pattern :: "string \<Rightarrow> string \<Rightarrow> error + int list" where
  "feedback_pattern guess target =
     (case greens 0 guess target (replicate 5 0) (map Some target) of
        Inl e \<Rightarrow> Inl e
      | Inr (pattern, target_chars) \<Rightarrow>
          (case yellows 0 guess pattern target_chars of
             Inl e \<Rightarrow> Inl e
           | Inr (pattern', target_chars') \<Rightarrow> Inr pattern'))"

text \<open>
  \<^verbatim>\<open>filter_candidates\<close>: the list comprehension visits the candidates in order and
  stops at the first call of \<^verbatim>\<open>feedback_pattern\<close> that raises.
\<close>

fun filter_candidates :: "string list \<Rightarrow> string \<Rightarrow> int list \<Rightarrow> error + string list" where
  "filter_candidates [] guess pattern = Inr []"
| "filter_candidates (w # ws) guess pattern =
     (case feedback_pattern guess w of
        Inl e \<Rightarrow> Inl e
      | Inr p \<Rightarrow>
          (case filter_candidates ws guess pattern of
             Inl e \<Rightarrow> Inl e
           | Inr kept \<Rightarrow> Inr (if p = pattern then w # kept else kept)))"

fun is_consistent :: "string \<Rightarrow> (string \<times> int list) list \<Rightarrow> error + bool" where
  "is_consistent word [] = Inr True"
| "is_consistent word ((guess, pattern) # history) =
     (case feedback_pattern guess word of
        Inl e \<Rightarrow> Inl e
      | Inr p \<Rightarrow> if p \<noteq> pattern then Inr False else is_consistent word history)"

subsection \<open>Entropy and scoring\<close>

text \<open>
  \<^verbatim>\<open>partitions[p] += 1\<close> on a \<^verbatim>\<open>defaultdict(int)\<close>. A Python dict keeps its keys
  in insertion order, so the dict is an association list with distinct keys, a new key
  going to the end.
\<close>

fun partitions_incr :: "(int list \<times> nat) list \<Rightarrow> int list \<Rightarrow> (int list \<times> nat) list" where
  "partitions_incr [] p = [(p, 1)]"
| "partitions_incr ((q, c) # rest) p =
     (if q = p then (q, c + 1) # rest else (q, c) # partitions_incr rest p)"

fun count_partitions ::
  "string \<Rightarrow> string list \<Rightarrow> (int list \<times> nat) list \<Rightarrow> error + (int list \<times> nat) list" where
  "count_partitions guess [] partitions = Inr partitions"
| "count_partitions guess (target # rest) partitions =
     (case feedback_pattern guess target of
        Inl e \<Rightarrow> Inl e
      | Inr p \<Rightarrow> count_partitions guess rest (partitions_incr partitions p))"

text \<open>
  The loop over \<^verbatim>\<open>partitions.values()\<close>. \<^verbatim>\<open>count / total\<close> raises when
  \<^verbatim>\<open>total\<close> (here \<open>tot\<close>) is 0, and \<^verbatim>\<open>math.log2\<close> raises outside the positive numbers.
  The sum is the exact one; the doubles the interpreter accumulates can differ from it
  in the last bits (see \<open>sum_entropy_fl\<close> below).
\<close>

fun sum_entropy :: "nat \<Rightarrow> nat list \<Rightarrow> real \<Rightarrow> error + real" where
  "sum_entropy tot [] entropy = Inr entropy"
| "sum_entropy tot (cnt # rest) entropy =
     (if tot = 0 then Inl (ZeroDivisionError ''division by zero'')
      else
        (let prob = real cnt / real tot
         in if prob \<le> 0 then Inl (ValueError ''math domain error'')
            else sum_entropy tot rest (entropy - prob * log 2 prob)))"

definition expected_entropy :: "string \<Rightarrow> string list \<Rightarrow> error + real" where
  "expected_entropy guess candidates =
     (case count_partitions guess candidates [] of
        Inl e \<Rightarrow> Inl e
      | Inr partitions \<Rightarrow> sum_entropy (length candidates) (map snd partitions) 0)"

text \<open>\<open>zipf_frequency\<close> stands for \<^verbatim>\<open>lambda w: wordfreq.zipf_frequency(w, "en")\<close>.\<close>

definition hybrid_score :: "(string \<Rightarrow> real) \<Rightarrow> string \<Rightarrow> string list \<Rightarrow> real \<Rightarrow> error + real" where
  "hybrid_score zipf_frequency guess candidates alpha =
     (case expected_entropy guess candidates of
        Inl e \<Rightarrow> Inl e
      | Inr ent \<Rightarrow>
          (let freq = zipf_frequency guess;
               freq_clamped = max (min freq 7) 1;
               freq_norm = (freq_clamped - 1) / 6
           in Inr (alpha * ent + (1 - alpha) * freq_norm)))"

subsection \<open>Parallel processing helper\<close>

fun score_word_worker ::
  "(string \<Rightarrow> real) \<Rightarrow> string \<times> string list \<times> real \<Rightarrow> error + (real \<times> string)" where
  "score_word_worker zipf_frequency (word, candidates, alpha) =
     (case hybrid_score zipf_frequency word candidates alpha of
        Inl e \<Rightarrow> Inl e
      | Inr score \<Rightarrow> Inr (score, word))"

text \<open>
  \<^verbatim>\<open>list(executor.map(f, args))\<close>: every call runs in a worker process on its own
  copy of the arguments; the results come back in the order of \<open>args\<close>, and the first
  call in that order that raised makes the whole expression raise.
\<close>

fun executor_map :: "('a \<Rightarrow> error + 'b) \<Rightarrow> 'a list \<Rightarrow> error + 'b list" where
  "executor_map f [] = Inr []"
| "executor_map f (x # xs) =
     (case f x of
        Inl e \<Rightarrow> Inl e
      | Inr y \<Rightarrow> (case executor_map f xs of Inl e \<Rightarrow> Inl e | Inr ys \<Rightarrow> Inr (y # ys)))"

subsection \<open>Main suggestion function\<close>

text \<open>The serial loop: \<^verbatim>\<open>scores.append((s, w))\<close> for every word of the pool.\<close>

fun score_serial ::
  "(string \<Rightarrow> real) \<Rightarrow> string list \<Rightarrow> string list \<Rightarrow> real \<Rightarrow> (real \<times> string) list
    \<Rightarrow> error + (real \<times> string) list" where
  "score_serial zipf_frequency [] candidates alpha scores = Inr scores"
| "score_serial zipf_frequency (w # rest) candidates alpha scores =
     (case hybrid_score zipf_frequency w candidates alpha of
        Inl e \<Rightarrow> Inl e
      | Inr s \<Rightarrow> score_serial zipf_frequency rest candidates alpha (scores @ [(s, w)]))"

text \<open>
  \<^verbatim>\<open>scores.sort(reverse=True)\<close> on (score, word) tuples: descending in the
  lexicographic order of the pairs. Two tuples that compare equal are the same pair, so
  the stability of Python's sort cannot be observed.
\<close>

definition sort_reverse :: "(real \<times> string) list \<Rightarrow> (real \<times> string) list" where
  "sort_reverse scores = rev (sort scores)"

text \<open>The slice \<^verbatim>\<open>xs[:k]\<close>; a negative \<open>k\<close> counts from the end.\<close>

definition slice_to :: "'a list \<Rightarrow> int \<Rightarrow> 'a list" where
  "slice_to xs k = (if k < 0 then take (nat (int (length xs) + k)) xs else take (nat k) xs)"

text \<open>\<^verbatim>\<open>scores.sort(reverse=True); return [w for _, w in scores[:topk]]\<close>\<close>

definition ranked :: "(real \<times> string) list \<Rightarrow> int \<Rightarrow> string list" where
  "ranked scores topk = map snd (slice_to (sort_reverse scores) topk)"

definition suggest_serial ::
  "(string \<Rightarrow> real) \<Rightarrow> string list \<Rightarrow> string list \<Rightarrow> real \<Rightarrow> int \<Rightarrow> error + string list" where
  "suggest_serial zipf_frequency guess_pool candidates alpha topk =
     (case score_serial zipf_frequency guess_pool candidates alpha [] of
        Inl e \<Rightarrow> Inl e
      | Inr scores \<Rightarrow> Inr (ranked scores topk))"

definition suggest_parallel ::
  "(string \<Rightarrow> real) \<Rightarrow> string list \<Rightarrow> string list \<Rightarrow> real \<Rightarrow> int \<Rightarrow> error + string list" where
  "suggest_parallel zipf_frequency guess_pool candidates alpha topk =
     (let args = map (\<lambda>w. (w, candidates, alpha)) guess_pool
      in case executor_map (score_word_worker zipf_frequency) args of
           Inl e \<Rightarrow> Inl e
         | Inr scores \<Rightarrow> Inr (ranked scores topk))"

text \<open>
  \<^verbatim>\<open>suggest_guesses\<close>; \<^verbatim>\<open>max_workers\<close> only sets the number of worker processes and
  is left out.
\<close>

definition suggest_guesses ::
  "(string \<Rightarrow> real) \<Rightarrow> string list \<Rightarrow> string list \<Rightarrow> real \<Rightarrow> int \<Rightarrow> bool
    \<Rightarrow> error + string list" where
  "suggest_guesses zipf_frequency candidates all_words alpha topk restrict_guesses =
     (let guess_pool = (if restrict_guesses then candidates else all_words)
      in if length guess_pool < 500
         then suggest_serial zipf_frequency guess_pool candidates alpha topk
         else suggest_parallel zipf_frequency guess_pool candidates alpha topk)"

subsection \<open>The scores as the interpreter computes them\<close>

text \<open>
  The functions above read every float operation as the exact operation on reals. The
  interpreter computes in IEEE doubles: each operation returns the double that its exact
  result is rounded to, and \<^verbatim>\<open>math.log2\<close> returns what the C library returns. A finite
  double is a real number, so the arithmetic of doubles is a record of five functions
  on reals, one for each operation the scoring code uses, and a parameter of the
  functions below; nothing is assumed of it. These functions are \<^verbatim>\<open>expected_entropy\<close>,
  \<^verbatim>\<open>hybrid_score\<close>, \<^verbatim>\<open>_score_word_worker\<close> and \<^verbatim>\<open>suggest_guesses\<close> once
  more, operation by operation, with the operations of the record; \<^verbatim>\<open>min\<close> and
  \<^verbatim>\<open>max\<close> return one of their arguments and do not round. \<open>exact_ops\<close> is the
  arithmetic without rounding, for which they are the functions above.
\<close>

record float_ops =
  fl_add :: "real \<Rightarrow> real \<Rightarrow> real"
  fl_sub :: "real \<Rightarrow> real \<Rightarrow> real"
  fl_mul :: "real \<Rightarrow> real \<Rightarrow> real"
  fl_div :: "real \<Rightarrow> real \<Rightarrow> real"
  fl_log2 :: "real \<Rightarrow> real"

definition exact_ops :: float_ops where
  "exact_ops = \<lparr> fl_add = (+), fl_sub = (-), fl_mul = (*), fl_div = (/), fl_log2 = log 2 \<rparr>"

fun sum_entropy_fl :: "float_ops \<Rightarrow> nat \<Rightarrow> nat list \<Rightarrow> real \<Rightarrow> error + real" where
  "sum_entropy_fl fl tot [] entropy = Inr entropy"
| "sum_entropy_fl fl tot (cnt # rest) entropy =
     (if tot = 0 then Inl (ZeroDivisionError ''division by zero'')
      else
        (let prob = fl_div fl (real cnt) (real tot)
         in if prob \<le> 0 then Inl (ValueError ''math domain error'')
            else sum_entropy_fl fl tot rest
                   (fl_sub fl entropy (fl_mul fl prob (fl_log2 fl prob)))))"

definition expected_entropy_fl :: "float_ops \<Rightarrow> string \<Rightarrow> string list \<Rightarrow> error + real" where
  "expected_entropy_fl fl guess candidates =
     (case count_partitions guess candidates [] of
        Inl e \<Rightarrow> Inl e
      | Inr partitions \<Rightarrow> sum_entropy_fl fl (length candidates) (map snd partitions) 0)"

definition hybrid_score_fl ::
  "float_ops \<Rightarrow> (string \<Rightarrow> real) \<Rightarrow> string \<Rightarrow> string list \<Rightarrow> real \<Rightarrow> error + real" where
  "hybrid_score_fl fl zipf_frequency guess candidates alpha =
     (case expected_entropy_fl fl guess candidates of
        Inl e \<Rightarrow> Inl e
      | Inr ent \<Rightarrow>
          (let freq = zipf_frequency guess;
               freq_clamped = max (min freq 7) 1;
               freq_norm = fl_div fl (fl_sub fl freq_clamped 1) 6
           in Inr (fl_add fl (fl_mul fl alpha ent) (fl_mul fl (fl_sub fl 1 alpha) freq_norm))))"

fun score_word_worker_fl ::
  "float_ops \<Rightarrow> (string \<Rightarrow> real) \<Rightarrow> string \<times> string list \<times> real \<Rightarrow> error + (real \<times> string)" where
  "score_word_worker_fl fl zipf_frequency (word, candidates, alpha) =
     (case hybrid_score_fl fl zipf_frequency word candidates alpha of
        Inl e \<Rightarrow> Inl e
      | Inr score \<Rightarrow> Inr (score, word))"

fun score_serial_fl ::
  "float_ops \<Rightarrow> (string \<Rightarrow> real) \<Rightarrow> string list \<Rightarrow> string list \<Rightarrow> real
    \<Rightarrow> (real \<times> string) list \<Rightarrow> error + (real \<times> string) list" where
  "score_serial_fl fl zipf_frequency [] candidates alpha scores = Inr scores"
| "score_serial_fl fl zipf_frequency (w # rest) candidates alpha scores =
     (case hybrid_score_fl fl zipf_frequency w candidates alpha of
        Inl e \<Rightarrow> Inl e
      | Inr s \<Rightarrow> score_serial_fl fl zipf_frequency rest candidates alpha (scores @ [(s, w)]))"

definition suggest_serial_fl ::
  "float_ops \<Rightarrow> (string \<Rightarrow> real) \<Rightarrow> string list \<Rightarrow> string list \<Rightarrow> real \<Rightarrow> int
    \<Rightarrow> error + string list" where
  "suggest_serial_fl fl zipf_frequency guess_pool candidates alpha topk =
     (case score_serial_fl fl zipf_frequency guess_pool candidates alpha [] of
        Inl e \<Rightarrow> Inl e
      | Inr scores \<Rightarrow> Inr (ranked scores topk))"

definition suggest_parallel_fl ::
  "float_ops \<Rightarrow> (string \<Rightarrow> real) \<Rightarrow> string list \<Rightarrow> string list \<Rightarrow> real \<Rightarrow> int
    \<Rightarrow> error + string list" where
  "suggest_parallel_fl fl zipf_frequency guess_pool candidates alpha topk =
     (let args = map (\<lambda>w. (w, candidates, alpha)) guess_pool
      in case executor_map (score_word_worker_fl fl zipf_frequency) args of
           Inl e \<Rightarrow> Inl e
         | Inr scores \<Rightarrow> Inr (ranked scores topk))"

definition suggest_guesses_fl ::
  "float_ops \<Rightarrow> (string \<Rightarrow> real) \<Rightarrow> string list \<Rightarrow> string list \<Rightarrow> real \<Rightarrow> int \<Rightarrow> bool
    \<Rightarrow> error + string list" where
  "suggest_guesses_fl fl zipf_frequency candidates all_words alpha topk restrict_guesses =
     (let guess_pool = (if restrict_guesses then candidates else all_words)
      in if length guess_pool < 500
         then suggest_serial_fl fl zipf_frequency guess_pool candidates alpha topk
         else suggest_parallel_fl fl zipf_frequency guess_pool candidates alpha topk)"

subsection \<open>Dictionary\<close>

text \<open>\<^verbatim>\<open>str.lower\<close> and \<^verbatim>\<open>str.isalpha\<close>, on ASCII.\<close>

definition is_upper :: "char \<Rightarrow> bool" where
  "is_upper c = (CHR ''A'' \<le> c \<and> c \<le> CHR ''Z'')"

definition is_alpha :: "char \<Rightarrow> bool" where
  "is_alpha c = (is_upper c \<or> (CHR ''a'' \<le> c \<and> c \<le> CHR ''z''))"

definition str_lower :: "string \<Rightarrow> string" where
  "str_lower w = map (\<lambda>c. if is_upper c then char_of (of_char c + (32 :: nat)) else c) w"

definition str_isalpha :: "string \<Rightarrow> bool" where
  "str_isalpha w = (w \<noteq> [] \<and> list_all is_alpha w)"

text \<open>
  \<^verbatim>\<open>build_dictionary\<close>. \<open>top_n_list\<close> stands for
  \<^verbatim>\<open>lambda n: wordfreq.top_n_list("en", n)\<close>. \<open>scraped\<close> is what the \<^verbatim>\<open>try\<close> block
  obtained from the web page: \<open>Some\<close> of the list of past answers, or \<open>None\<close> when
  anything in the block raised (the \<^verbatim>\<open>except\<close> branch keeps the full dictionary).
\<close>

definition build_dictionary ::
  "(int \<Rightarrow> string list) \<Rightarrow> string list option \<Rightarrow> int \<Rightarrow> bool \<Rightarrow> string list" where
  "build_dictionary top_n_list scraped n_top filter_past_answers =
     (let words = map str_lower (filter (\<lambda>w. length w = 5 \<and> str_isalpha w) (top_n_list n_top));
          word_set = sort (remdups words)
      in if filter_past_answers
         then (case scraped of
                 Some past_answers \<Rightarrow> filter (\<lambda>w. w \<notin> set past_answers) word_set
               | None \<Rightarrow> word_set)
         else word_set)"

subsection \<open>The stateful solver\<close>

record WordleSolver =
  all_words :: "string list"
  candidates :: "string list"
  history :: "(string \<times> int list) list"

definition WordleSolver_init ::
  "(int \<Rightarrow> string list) \<Rightarrow> string list option \<Rightarrow> int \<Rightarrow> bool \<Rightarrow> WordleSolver" where
  "WordleSolver_init top_n_list scraped n_top filter_past_answers =
     (let aw = build_dictionary top_n_list scraped n_top False
      in \<lparr> all_words = aw,
           candidates = (if filter_past_answers
                         then build_dictionary top_n_list scraped n_top True
                         else aw),
           history = [] \<rparr>)"

definition suggest_initial_guess ::
  "(string \<Rightarrow> real) \<Rightarrow> real \<Rightarrow> int \<Rightarrow> bool \<Rightarrow> WordleSolver \<Rightarrow> error + string list" where
  "suggest_initial_guess zipf_frequency alpha topk restrict_guesses self =
     suggest_guesses zipf_frequency (candidates self) (all_words self) alpha topk restrict_guesses"

text \<open>
  \<^verbatim>\<open>WordleSolver.guess\<close> returns what the call returns or raises, and the solver as
  the call leaves it: the history is extended before the candidates are filtered, so it
  keeps the new record also when filtering raises.
\<close>

definition WordleSolver_guess ::
  "(string \<Rightarrow> real) \<Rightarrow> string \<Rightarrow> int list \<Rightarrow> real \<Rightarrow> int \<Rightarrow> bool \<Rightarrow> WordleSolver
    \<Rightarrow> (error + string list) \<times> WordleSolver" where
  "WordleSolver_guess zipf_frequency word pattern alpha topk restrict_guesses self =
     (let self1 = self\<lparr> history := history self @ [(word, pattern)] \<rparr>
      in case filter_candidates (candidates self1) word pattern of
           Inl e \<Rightarrow> (Inl e, self1)
         | Inr kept \<Rightarrow>
             (let self2 = self1\<lparr> candidates := kept \<rparr>
              in if length (candidates self2) = 0 then (Inr [], self2)
                 else if length (candidates self2) = 1 then (Inr (candidates self2), self2)
                 else (suggest_guesses zipf_frequency (candidates self2) (all_words self2)
                         alpha topk restrict_guesses, self2)))"

definition WordleSolver_reset :: "WordleSolver \<Rightarrow> WordleSolver" where
  "WordleSolver_reset self = self\<lparr> candidates := all_words self, history := [] \<rparr>"

subsection \<open>The guess and reset endpoints of \<^verbatim>\<open>main.py\<close>\<close>

text \<open>
  The request and response models. The request's pattern is a tuple of five ints by its
  declared type, here an \<^typ>\<open>int list\<close>. \<^verbatim>\<open>sessions\<close> is the module's dict from
  session ids to solvers; a solver is mutated in place, so the dict is returned with the
  solver as the call left it.
\<close>

record GuessRequest =
  req_session_id :: string
  req_word :: string
  req_pattern :: "int list"
  req_alpha :: real
  req_topk :: int
  req_restrict_guesses :: bool

record GuessResponse =
  suggestions :: "string list"
  candidates_remaining :: nat
  is_solved :: bool
  message :: "string option"

datatype http_error = HTTPException nat string

text \<open>\<^verbatim>\<open>str(e)\<close> of an exception is its message.\<close>

fun str_of_error :: "error \<Rightarrow> string" where
  "str_of_error (IndexError m) = m"
| "str_of_error (ZeroDivisionError m) = m"
| "str_of_error (ValueError m) = m"

definition submit_guess ::
  "(string \<Rightarrow> real) \<Rightarrow> (string \<rightharpoonup> WordleSolver) \<Rightarrow> GuessRequest
    \<Rightarrow> (http_error + GuessResponse) \<times> (string \<rightharpoonup> WordleSolver)" where
  "submit_guess zipf_frequency sessions request =
     (case sessions (req_session_id request) of
        None \<Rightarrow> (Inl (HTTPException 404 ''Session not found''), sessions)
      | Some solver \<Rightarrow>
          (let word = str_lower (req_word request)
           in if \<not> str_isalpha word \<or> length word \<noteq> 5
              then (Inl (HTTPException 400 ''Word must be 5 letters''), sessions)
              else if \<not> list_all (\<lambda>p. p \<in> set [0, 1, 2]) (req_pattern request)
              then (Inl (HTTPException 400 ''Pattern must contain only 0, 1, or 2''), sessions)
              else
                (case WordleSolver_guess zipf_frequency word (req_pattern request)
                        (req_alpha request) (req_topk request) (req_restrict_guesses request)
                        solver of
                   (Inl e, solver') \<Rightarrow>
                     (Inl (HTTPException 500 (''Failed to process guess: '' @ str_of_error e)),
                      sessions(req_session_id request \<mapsto> solver'))
                 | (Inr suggested, solver') \<Rightarrow>
                     (let solved = (length (candidates solver') = 1);
                          msg = (if length (candidates solver') = 0
                                 then Some ''No candidates remain - check your pattern''
                                 else if solved
                                 then Some (''Solved! Answer is '' @ [CHR 0x27]
                                            @ candidates solver' ! 0 @ [CHR 0x27])
                                 else None)
                      in (Inr \<lparr> suggestions = suggested,
                                candidates_remaining = length (candidates solver'),
                                is_solved = solved,
                                message = msg \<rparr>,
                          sessions(req_session_id request \<mapsto> solver'))))))"

definition reset_session ::
  "(string \<rightharpoonup> WordleSolver) \<Rightarrow> string \<Rightarrow> (http_error + string) \<times> (string \<rightharpoonup> WordleSolver)" where
  "reset_session sessions sid =
     (case sessions sid of
        None \<Rightarrow> (Inl (HTTPException 404 ''Session not found''), sessions)
      | Some solver \<Rightarrow>
          (Inr ''Session reset successfully'', sessions(sid \<mapsto> WordleSolver_reset solver)))"

section \<open>Reference definitions\<close>

subsection \<open>The frequency term of the specification\<close>

text \<open>The frequency signal clamped to [1, 7], then rescaled linearly to [0, 1].\<close>

definition freq_norm :: "real \<Rightarrow> real" where
  "freq_norm freq = (max 1 (min 7 freq) - 1) / (7 - 1)"

subsection \<open>Sessions\<close>

text \<open>
  The solver states of a session: the state after construction, and the states that
  \<^verbatim>\<open>guess\<close>, called with a word of five letters, and \<^verbatim>\<open>reset\<close> lead to.
\<close>

inductive reachable :: "(string \<Rightarrow> real) \<Rightarrow> WordleSolver \<Rightarrow> bool"
  for zipf_frequency :: "string \<Rightarrow> real" where
  init: "reachable zipf_frequency (WordleSolver_init top_n_list scraped n_top filter_past_answers)"
| guess: "reachable zipf_frequency self \<Longrightarrow> length word = 5 \<Longrightarrow>
     reachable zipf_frequency
       (snd (WordleSolver_guess zipf_frequency word pattern alpha topk restrict_guesses self))"
| reset: "reachable zipf_frequency self \<Longrightarrow> reachable zipf_frequency (WordleSolver_reset self)"


text \<open>
  The invariant of a session: every word is a word of five letters, and every
  candidate is consistent with every record of the history.
\<close>

definition session_inv :: "WordleSolver \<Rightarrow> bool" where
  "session_inv s \<longleftrightarrow>
     (\<forall>w \<in> set (all_words s). length w = 5) \<and>
     (\<forall>w \<in> set (candidates s). length w = 5) \<and>
     (\<forall>(g, p) \<in> set (history s). \<forall>w \<in> set (candidates s). feedback_pattern g w = Inr p)"

text \<open>
  An example solver over five words, built with \<^verbatim>\<open>filter_past_answers=True\<close>
  while the fetch of the past answers failed, and a request to the guess endpoint.
\<close>

definition demo_solver :: WordleSolver where
  "demo_solver =
     WordleSolver_init (\<lambda>n. [''crane'', ''trace'', ''slate'', ''stale'', ''plate'']) None 100000 True"

definition demo_request :: GuessRequest where
  "demo_request = \<lparr> req_session_id = ''s1'', req_word = ''TRACE'',
      req_pattern = [2, 2, 2, 2, 0], req_alpha = 7 / 10, req_topk = 5,
      req_restrict_guesses = False \<rparr>"

subsection \<open>The two-pass feedback of the specification\<close>

text \<open>
  The first pass marks the positions where guess and target agree and removes the
  target letters found there from the multiset of the target's letters. The second pass
  goes left to right over the positions: a marked one is CORRECT (2); an unmarked one
  is PRESENT (1) when its guess letter still occurs in the multiset, one occurrence
  being removed, and ABSENT (0) otherwise.
\<close>

definition first_pass :: "string \<Rightarrow> string \<Rightarrow> bool list" where
  "first_pass guess target = map (\<lambda>(g, t). g = t) (zip guess target)"

definition remaining_letters :: "string \<Rightarrow> string \<Rightarrow> char multiset" where
  "remaining_letters guess target =
     mset target - mset (map snd (filter (\<lambda>(g, t). g = t) (zip guess target)))"

fun second_pass :: "(char \<times> bool) list \<Rightarrow> char multiset \<Rightarrow> int list" where
  "second_pass [] M = []"
| "second_pass ((g, marked) # rest) M =
     (if marked then 2 # second_pass rest M
      else if g \<in># M then 1 # second_pass rest (M - {#g#})
      else 0 # second_pass rest M)"

definition feedback_reference :: "string \<Rightarrow> string \<Rightarrow> int list" where
  "feedback_reference guess target =
     second_pass (zip guess (first_pass guess target)) (remaining_letters guess target)"

subsection \<open>Closed forms of the two loops\<close>

text \<open>
  What the two loops of \<^verbatim>\<open>feedback_pattern\<close> leave in \<^verbatim>\<open>pattern\<close> and
  \<^verbatim>\<open>target_chars\<close>, from the current index on, and the letters still available
  in \<^verbatim>\<open>target_chars\<close>.
\<close>

fun marks :: "string \<Rightarrow> string \<Rightarrow> int list \<Rightarrow> int list" where
  "marks (g # gs) (x # xs) (p # ps) = (if x = g then 2 else p) # marks gs xs ps"
| "marks gs xs ps = ps"

fun consumed :: "string \<Rightarrow> string \<Rightarrow> char option list \<Rightarrow> char option list" where
  "consumed (g # gs) (x # xs) (t # ts) = (if x = g then None else t) # consumed gs xs ts"
| "consumed gs xs ts = ts"

fun ymarks :: "string \<Rightarrow> int list \<Rightarrow> char option list \<Rightarrow> int list" where
  "ymarks (g # gs) (p # ps) tc =
     (if p = 0 \<and> Some g \<in> set tc
      then 1 # ymarks gs ps (tc[index_of tc (Some g) := None])
      else p # ymarks gs ps tc)"
| "ymarks gs ps tc = ps"

fun letters :: "char option list \<Rightarrow> char multiset" where
  "letters [] = {#}"
| "letters (None # tc) = letters tc"
| "letters (Some c # tc) = add_mset c (letters tc)"

subsection \<open>Shannon entropy of a list of partition sizes\<close>

text \<open>The sum \<open>- \<Sum> p\<^sub>k log\<^sub>2 p\<^sub>k\<close> with \<open>p\<^sub>k = c\<^sub>k / n\<close>, over the sizes \<open>c\<^sub>k\<close>.\<close>

definition H_terms :: "nat \<Rightarrow> nat list \<Rightarrow> real" where
  "H_terms n cs = (\<Sum>c\<leftarrow>cs. - (real c / real n) * log 2 (real c / real n))"

section \<open>Properties\<close>

subsection \<open>The loops of the feedback function\<close>

lemma greens_append:
  "length X1 = length P1 \<Longrightarrow> length T1 = length P1 \<Longrightarrow> length rest \<le> length X2 \<Longrightarrow>
   length rest \<le> length P2 \<Longrightarrow> length T2 = length X2 \<Longrightarrow>
   greens (length P1) rest (X1 @ X2) (P1 @ P2) (T1 @ T2)
     = Inr (P1 @ marks rest X2 P2, T1 @ consumed rest X2 T2)"
proof (induction rest arbitrary: X1 X2 P1 P2 T1 T2)
  case Nil
  then show ?case by simp
next
  case (Cons g rest)
  from Cons.prems obtain x X2' where X2: "X2 = x # X2'" by (cases X2) auto
  from Cons.prems obtain p P2' where P2: "P2 = p # P2'" by (cases P2) auto
  from Cons.prems X2 obtain t T2' where T2: "T2 = t # T2'" by (cases T2) auto
  let ?p = "if x = g then 2 else p"
  let ?t = "if x = g then None else t"
  have IH: "greens (length (P1 @ [?p])) rest ((X1 @ [x]) @ X2') ((P1 @ [?p]) @ P2') ((T1 @ [?t]) @ T2')
     = Inr ((P1 @ [?p]) @ marks rest X2' P2', (T1 @ [?t]) @ consumed rest X2' T2')"
    by (rule Cons.IH) (use Cons.prems X2 P2 T2 in auto)
  have nth: "(X1 @ y # X2') ! length P1 = y" for y
    using Cons.prems(1) by (metis nth_append_length)
  have upd1: "(P1 @ p # P2')[length P1 := 2] = P1 @ 2 # P2'" by simp
  have upd2: "(T1 @ y # T2')[length P1 := None] = T1 @ None # T2'" for y
    using Cons.prems(2) by (metis list_update_length)
  show ?case
    using IH Cons.prems(1,2) by (cases "x = g") (simp_all add: X2 P2 T2 nth upd1 upd2)
qed

lemma yellows_append:
  "length rest \<le> length P2 \<Longrightarrow>
   \<exists>tc'. yellows (length P1) rest (P1 @ P2) tc = Inr (P1 @ ymarks rest P2 tc, tc')"
proof (induction rest arbitrary: P1 P2 tc)
  case Nil
  then show ?case by simp
next
  case (Cons g rest)
  from Cons.prems obtain p P2' where P2: "P2 = p # P2'" by (cases P2) auto
  have len: "length rest \<le> length P2'" using Cons.prems P2 by simp
  show ?case
  proof (cases "p = 0 \<and> Some g \<in> set tc")
    case True
    from Cons.IH[OF len, of "P1 @ [1]" "tc[index_of tc (Some g) := None]"]
    show ?thesis using True by (simp add: P2)
  next
    case False
    from Cons.IH[OF len, of "P1 @ [p]" tc]
    show ?thesis using False by (auto simp add: P2)
  qed
qed

lemma feedback_pattern_Inr:
  assumes "length guess \<le> 5" "length guess \<le> length target"
  shows "feedback_pattern guess target
    = Inr (ymarks guess (marks guess target (replicate 5 0)) (consumed guess target (map Some target)))"
proof -
  have g: "greens (length ([]::int list)) guess ([] @ target) ([] @ replicate 5 0) ([] @ map Some target)
     = Inr ([] @ marks guess target (replicate 5 0), [] @ consumed guess target (map Some target))"
    by (rule greens_append) (use assms in auto)
  have lm: "length (marks gs xs ps) = length ps" for gs xs ps
    by (induction gs xs ps rule: marks.induct) auto
  have y: "\<exists>tc'. yellows (length ([]::int list)) guess ([] @ marks guess target (replicate 5 0)) tc
      = Inr ([] @ ymarks guess (marks guess target (replicate 5 0)) tc, tc')" for tc
    by (rule yellows_append) (use assms lm in auto)
  show ?thesis
    using g y[of "consumed guess target (map Some target)"]
    by (auto simp: feedback_pattern_def)
qed


lemma letters_member: "Some c \<in> set tc \<longleftrightarrow> c \<in># letters tc"
  by (induction tc rule: letters.induct) auto

lemma letters_consume:
  "Some c \<in> set tc \<Longrightarrow> letters (tc[index_of tc (Some c) := None]) = letters tc - {#c#}"
proof (induction tc rule: letters.induct)
  case 1
  then show ?case by simp
next
  case (2 tc)
  then show ?case by simp
next
  case (3 d tc)
  show ?case
  proof (cases "d = c")
    case True
    then show ?thesis by simp
  next
    case False
    with 3 have "c \<in># letters tc" by (simp add: letters_member)
    with 3 False show ?thesis by (simp add: letters_member)
  qed
qed

lemma matched_subset:
  "length gs = length ts \<Longrightarrow> mset (map snd (filter (\<lambda>(g, t). g = t) (zip gs ts))) \<subseteq># mset ts"
proof (induction gs ts rule: list_induct2)
  case Nil
  then show ?case by simp
next
  case (Cons g gs t ts)
  then show ?case by (auto intro: subset_mset.order_trans)
qed

lemma letters_consumed:
  "length gs = length ts \<Longrightarrow>
   letters (consumed gs ts (map Some ts)) = remaining_letters gs ts"
  unfolding remaining_letters_def
proof (induction gs ts rule: list_induct2)
  case Nil
  then show ?case by simp
next
  case (Cons g gs t ts)
  then show ?case
    using matched_subset[OF Cons.hyps]
    by (auto simp: multiset_eq_iff subseteq_mset_def Suc_diff_le)
qed

lemma ymarks_second_pass:
  "length gs = length ts \<Longrightarrow>
   ymarks gs (marks gs ts (replicate (length gs) 0)) tc
     = second_pass (zip gs (first_pass gs ts)) (letters tc)"
  unfolding first_pass_def
proof (induction gs ts arbitrary: tc rule: list_induct2)
  case Nil
  then show ?case by simp
next
  case (Cons g gs t ts)
  then show ?case
    by (auto simp: letters_member letters_consume)
qed

lemma feedback_pattern_reference:
  assumes "length guess = 5" "length target = 5"
  shows "feedback_pattern guess target = Inr (feedback_reference guess target)"
proof -
  have "feedback_pattern guess target
    = Inr (ymarks guess (marks guess target (replicate (length guess) 0)) (consumed guess target (map Some target)))"
    using feedback_pattern_Inr[of guess target] assms by simp
  also have "\<dots> = Inr (second_pass (zip guess (first_pass guess target))
                      (letters (consumed guess target (map Some target))))"
    using ymarks_second_pass[of guess target] assms by simp
  finally show ?thesis
    using letters_consumed[of guess target] assms by (simp add: feedback_reference_def)
qed


subsection \<open>Filtering\<close>

lemma filter_candidates_eq:
  "filter_candidates C g p = Inr kept \<Longrightarrow> kept = filter (\<lambda>w. feedback_pattern g w = Inr p) C"
  by (induction C arbitrary: kept) (auto split: sum.splits)

lemma filter_candidates_Inr_iff:
  "(\<exists>kept. filter_candidates C g p = Inr kept) \<longleftrightarrow> (\<forall>w \<in> set C. \<exists>q. feedback_pattern g w = Inr q)"
  by (induction C) (auto split: sum.splits)

subsection \<open>Partitions, and entropy in exact arithmetic\<close>

text \<open>
  The bounds of this subsection are those of the exact sum \<open>H_terms\<close>. They are not
  bounds of the doubles that the interpreter accumulates, which can lie a rounding error
  above or below.
\<close>

lemma partitions_incr_sum:
  "sum_list (map snd (partitions_incr parts p)) = Suc (sum_list (map snd parts))"
  by (induction parts p rule: partitions_incr.induct) auto

lemma partitions_incr_keys:
  "map fst (partitions_incr parts p) = (if p \<in> fst ` set parts then map fst parts else map fst parts @ [p])"
  by (induction parts p rule: partitions_incr.induct) auto

lemma partitions_incr_pos:
  "\<forall>c \<in> set (map snd parts). 0 < c \<Longrightarrow> \<forall>c \<in> set (map snd (partitions_incr parts p)). 0 < c"
  by (induction parts p rule: partitions_incr.induct) auto

lemma count_partitions_inv:
  assumes "count_partitions g C parts = Inr parts'"
    and "distinct (map fst parts)" and "\<forall>c \<in> set (map snd parts). 0 < c"
  shows "distinct (map fst parts')
    \<and> (\<forall>c \<in> set (map snd parts'). 0 < c)
    \<and> sum_list (map snd parts') = sum_list (map snd parts) + length C
    \<and> Inr ` fst ` set parts' = Inr ` fst ` set parts \<union> feedback_pattern g ` set C"
  using assms
proof (induction C arbitrary: parts)
  case Nil
  then show ?case by simp
next
  case (Cons w C)
  from Cons.prems(1) obtain p where p: "feedback_pattern g w = Inr p"
    and rec: "count_partitions g C (partitions_incr parts p) = Inr parts'"
    by (auto split: sum.splits)
  have d: "distinct (map fst (partitions_incr parts p))"
    using Cons.prems(2) by (auto simp: partitions_incr_keys)
  have pos: "\<forall>c \<in> set (map snd (partitions_incr parts p)). 0 < c"
    using Cons.prems(3) by (rule partitions_incr_pos)
  have keys: "fst ` set (partitions_incr parts p) = insert p (fst ` set parts)"
    using partitions_incr_keys[of parts p]
    by (metis (no_types, lifting) Un_insert_right insert_absorb list.set(1,2) set_append set_map
        sup_bot.right_neutral)
  from Cons.IH[OF rec d pos] show ?case
    by (auto simp: partitions_incr_sum p keys)
qed

lemma count_partitions_total:
  "\<forall>w \<in> set C. \<exists>p. feedback_pattern g w = Inr p \<Longrightarrow> \<exists>parts'. count_partitions g C parts = Inr parts'"
  by (induction C arbitrary: parts) (auto split: sum.splits)

lemma sum_entropy_Inr:
  "0 < n \<Longrightarrow> \<forall>c \<in> set cs. 0 < c \<Longrightarrow> sum_entropy n cs acc = Inr (acc + H_terms n cs)"
proof (induction cs arbitrary: acc)
  case Nil
  then show ?case by (simp add: H_terms_def)
next
  case (Cons c cs)
  then have "0 < real c / real n" by simp
  then have "\<not> real c / real n \<le> 0" by linarith
  with Cons show ?case by (simp add: H_terms_def Let_def)
qed

lemma H_terms_nonneg_term:
  assumes "0 < c" "c \<le> n"
  shows "0 \<le> - (real c / real n) * log 2 (real c / real n)"
    and "- (real c / real n) * log 2 (real c / real n) = 0 \<longleftrightarrow> c = n"
proof -
  define p where "p = real c / real n"
  have n: "0 < n" using assms by simp
  have p: "0 < p" "p \<le> 1" using assms n by (auto simp: p_def)
  then have L: "log 2 p \<le> 0" by simp
  have "p * log 2 p \<le> 0"
    using p(1) L by (intro mult_nonneg_nonpos) auto
  then show "0 \<le> - (real c / real n) * log 2 (real c / real n)"
    unfolding p_def by simp
  have "- p * log 2 p = 0 \<longleftrightarrow> log 2 p = 0"
    using p(1) by simp
  also have "\<dots> \<longleftrightarrow> p = 1"
  proof
    assume z: "log 2 p = 0"
    then have "0 \<le> log 2 p" by simp
    then have "1 \<le> p" using p(1) by simp
    then show "p = 1" using p(2) by simp
  qed simp
  also have "\<dots> \<longleftrightarrow> c = n"
    using n by (auto simp: p_def)
  finally show "- (real c / real n) * log 2 (real c / real n) = 0 \<longleftrightarrow> c = n"
    unfolding p_def .
qed

lemma member_le_sum_list: "c \<in> set cs \<Longrightarrow> (c::nat) \<le> sum_list cs"
  by (induction cs) auto

lemma H_terms_nonneg:
  assumes "\<forall>c \<in> set cs. 0 < c" "sum_list cs = n"
  shows "0 \<le> H_terms n cs"
  unfolding H_terms_def
  by (rule sum_list_nonneg) (use assms H_terms_nonneg_term(1) member_le_sum_list in auto)

lemma H_terms_zero_iff:
  assumes "\<forall>c \<in> set cs. 0 < c" "sum_list cs = n"
  shows "H_terms n cs = 0 \<longleftrightarrow> (\<forall>c \<in> set cs. c = n)"
proof -
  let ?f = "\<lambda>c. - (real c / real n) * log 2 (real c / real n)"
  have le: "c \<le> n" if "c \<in> set cs" for c
    using that assms(2) member_le_sum_list by auto
  have "H_terms n cs = 0 \<longleftrightarrow> (\<forall>x \<in> set (map ?f cs). x = 0)"
    unfolding H_terms_def
  proof (rule sum_list_nonneg_eq_0_iff)
    fix x assume "x \<in> set (map ?f cs)"
    then obtain c where "c \<in> set cs" "x = ?f c" by auto
    then show "0 \<le> x"
      using H_terms_nonneg_term(1)[of c n] assms(1) le by simp
  qed
  also have "\<dots> \<longleftrightarrow> (\<forall>c \<in> set cs. ?f c = 0)" by simp
  also have "\<dots> \<longleftrightarrow> (\<forall>c \<in> set cs. c = n)"
  proof (rule ball_cong[OF refl])
    fix c assume "c \<in> set cs"
    then show "?f c = 0 \<longleftrightarrow> c = n"
      using H_terms_nonneg_term(2)[of c n] assms(1) le by simp
  qed
  finally show ?thesis .
qed

lemma H_terms_log:
  assumes "\<forall>c \<in> set cs. 0 < c" "sum_list cs = n" "0 < n"
  shows "H_terms n cs = log 2 (real n) - (\<Sum>c\<leftarrow>cs. real c * log 2 (real c)) / real n"
proof -
  have "(\<Sum>c\<leftarrow>cs. - (real c / real n) * log 2 (real c / real n))
      = (\<Sum>c\<leftarrow>cs. (real c / real n) * log 2 (real n) - (real c * log 2 (real c)) / real n)"
  proof (rule arg_cong[where f = sum_list], rule map_cong[OF refl])
    fix c assume "c \<in> set cs"
    then have "0 < c" using assms by auto
    then have "log 2 (real c / real n) = log 2 (real c) - log 2 (real n)"
      using assms(3) by (simp add: log_divide)
    moreover have "L = A - B \<Longrightarrow> - q * L = q * B - q * A" for q A B L :: real
    proof -
      assume "L = A - B"
      then show "- q * L = q * B - q * A" by (simp add: right_diff_distrib)
    qed
    ultimately have "- (real c / real n) * log 2 (real c / real n)
       = (real c / real n) * log 2 (real n) - (real c / real n) * log 2 (real c)"
      by blast
    then show "- (real c / real n) * log 2 (real c / real n)
       = (real c / real n) * log 2 (real n) - (real c * log 2 (real c)) / real n"
      by simp
  qed
  also have "\<dots> = (\<Sum>c\<leftarrow>cs. real c / real n) * log 2 (real n) - (\<Sum>c\<leftarrow>cs. real c * log 2 (real c)) / real n"
    by (induction cs) (simp_all add: algebra_simps add_divide_distrib)
  also have "(\<Sum>c\<leftarrow>cs. real c / real n) = 1"
  proof -
    have "(\<Sum>c\<leftarrow>cs. real c / real n) = (\<Sum>c\<leftarrow>cs. real c) / real n"
      by (induction cs) (auto simp: add_divide_distrib)
    also have "(\<Sum>c\<leftarrow>cs. real c) = real (sum_list cs)"
      by (induction cs) auto
    finally show ?thesis using assms by simp
  qed
  finally show ?thesis by (simp add: H_terms_def)
qed


lemma weighted_log_nonneg:
  assumes "\<forall>c \<in> set cs. 0 < c"
  shows "0 \<le> (\<Sum>c\<leftarrow>cs. real c * log 2 (real c))"
    and "(\<Sum>c\<leftarrow>cs. real c * log 2 (real c)) = 0 \<longleftrightarrow> (\<forall>c \<in> set cs. c = 1)"
proof -
  let ?f = "\<lambda>c::nat. real c * log 2 (real c)"
  have nonneg: "0 \<le> ?f c" if "c \<in> set cs" for c
  proof -
    have "1 \<le> real c" using that assms by (simp add: Suc_leI)
    then show ?thesis by simp
  qed
  have zero: "?f c = 0 \<longleftrightarrow> c = 1" if "c \<in> set cs" for c
  proof -
    have c: "1 \<le> real c" using that assms by (simp add: Suc_leI)
    show ?thesis
    proof
      assume "?f c = 0"
      then have "log 2 (real c) = 0" using c by simp
      then have "log 2 (real c) \<le> 0" by simp
      then have "real c \<le> 1" using c by simp
      then show "c = 1" using c by simp
    qed simp
  qed
  show "0 \<le> sum_list (map ?f cs)"
    by (rule sum_list_nonneg) (use nonneg in auto)
  have "sum_list (map ?f cs) = 0 \<longleftrightarrow> (\<forall>x \<in> set (map ?f cs). x = 0)"
    by (rule sum_list_nonneg_eq_0_iff) (use nonneg in auto)
  also have "\<dots> \<longleftrightarrow> (\<forall>c \<in> set cs. ?f c = 0)" by simp
  also have "\<dots> \<longleftrightarrow> (\<forall>c \<in> set cs. c = 1)"
    by (rule ball_cong[OF refl]) (use zero in simp)
  finally show "sum_list (map ?f cs) = 0 \<longleftrightarrow> (\<forall>c \<in> set cs. c = 1)" .
qed

lemma all_ones_iff_length:
  "\<forall>c \<in> set cs. 0 < (c::nat) \<Longrightarrow> (\<forall>c \<in> set cs. c = 1) \<longleftrightarrow> length cs = sum_list cs"
proof (induction cs)
  case Nil
  then show ?case by simp
next
  case (Cons c cs)
  have "length cs \<le> sum_list cs"
    using Cons.prems by (induction cs) (auto simp: Suc_le_eq add_strict_increasing2)
  with Cons show ?case by auto
qed

lemma all_total_iff_single:
  assumes "\<forall>c \<in> set cs. 0 < (c::nat)" "cs \<noteq> []"
  shows "(\<forall>c \<in> set cs. c = sum_list cs) \<longleftrightarrow> length cs = 1"
proof (cases cs)
  case Nil
  with assms show ?thesis by simp
next
  case (Cons c rest)
  show ?thesis
  proof (cases rest)
    case Nil
    with Cons show ?thesis by simp
  next
    case (Cons d rest')
    have "0 < d" "0 < c" using assms(1) \<open>cs = c # rest\<close> Cons by auto
    then have "c \<noteq> sum_list cs" using \<open>cs = c # rest\<close> Cons by simp
    then show ?thesis using \<open>cs = c # rest\<close> Cons by auto
  qed
qed


lemma expected_entropy_parts:
  assumes "expected_entropy g C = Inr H" "C \<noteq> []"
  obtains cs where "H = H_terms (length C) cs" "\<forall>c \<in> set cs. 0 < c"
    "sum_list cs = length C" "length cs = card (feedback_pattern g ` set C)"
proof -
  from assms(1) obtain parts where cp: "count_partitions g C [] = Inr parts"
    and se: "sum_entropy (length C) (map snd parts) 0 = Inr H"
    by (auto simp: expected_entropy_def split: sum.splits)
  from count_partitions_inv[OF cp] have
    d: "distinct (map fst parts)" and pos: "\<forall>c \<in> set (map snd parts). 0 < c"
    and sm: "sum_list (map snd parts) = length C"
    and keys: "Inr ` fst ` set parts = feedback_pattern g ` set C" by auto
  have "length parts = card (set (map fst parts))"
    using d by (metis distinct_card length_map)
  also have "\<dots> = card ((Inr :: int list \<Rightarrow> error + int list) ` fst ` set parts)"
    by (simp add: card_image)
  finally have len: "length (map snd parts) = card (feedback_pattern g ` set C)"
    using keys by simp
  have "sum_entropy (length C) (map snd parts) 0 = Inr (0 + H_terms (length C) (map snd parts))"
    by (rule sum_entropy_Inr) (use assms(2) pos in auto)
  with se have "H = H_terms (length C) (map snd parts)" by simp
  then show thesis using pos sm len that by blast
qed

lemma card_image_one_iff:
  assumes "C \<noteq> []"
  shows "card (f ` set C) = 1 \<longleftrightarrow> (\<forall>w \<in> set C. \<forall>w' \<in> set C. f w = f w')"
proof
  assume "card (f ` set C) = 1"
  then obtain y where y: "f ` set C = {y}" by (auto simp: card_1_singleton_iff)
  have "f w = y" if "w \<in> set C" for w
    using that y by (metis imageI singletonD)
  then show "\<forall>w \<in> set C. \<forall>w' \<in> set C. f w = f w'" by simp
next
  assume same: "\<forall>w \<in> set C. \<forall>w' \<in> set C. f w = f w'"
  from assms obtain w where w: "w \<in> set C" by (cases C) auto
  with same have "f ` set C = {f w}" by blast
  then show "card (f ` set C) = 1" by simp
qed

lemma card_image_length_iff:
  "card (f ` set C) = length C \<longleftrightarrow> distinct (map f C)"
proof -
  have "card (set (map f C)) = length (map f C) \<longleftrightarrow> distinct (map f C)"
    using card_distinct distinct_card by blast
  then show ?thesis by simp
qed

lemma expected_entropy_properties:
  assumes "C \<noteq> []" "expected_entropy g C = Inr H"
  shows "0 \<le> H" "H \<le> log 2 (real (length C))"
    "H = 0 \<longleftrightarrow> (\<forall>w \<in> set C. \<forall>w' \<in> set C. feedback_pattern g w = feedback_pattern g w')"
    "H = log 2 (real (length C)) \<longleftrightarrow> distinct (map (feedback_pattern g) C)"
proof -
  from expected_entropy_parts[OF assms(2,1)] obtain cs where
    H: "H = H_terms (length C) cs" and pos: "\<forall>c \<in> set cs. 0 < c"
    and sm: "sum_list cs = length C" and len: "length cs = card (feedback_pattern g ` set C)"
    by blast
  have n: "0 < length C" using assms(1) by simp
  have ne: "cs \<noteq> []" using sm n by auto
  show "0 \<le> H" unfolding H by (rule H_terms_nonneg[OF pos sm])
  have "H = 0 \<longleftrightarrow> (\<forall>c \<in> set cs. c = sum_list cs)"
    unfolding H using H_terms_zero_iff[OF pos sm] sm by simp
  also have "\<dots> \<longleftrightarrow> length cs = 1" by (rule all_total_iff_single[OF pos ne])
  also have "\<dots> \<longleftrightarrow> (\<forall>w \<in> set C. \<forall>w' \<in> set C. feedback_pattern g w = feedback_pattern g w')"
    unfolding len by (rule card_image_one_iff[OF assms(1)])
  finally show "H = 0 \<longleftrightarrow> (\<forall>w \<in> set C. \<forall>w' \<in> set C. feedback_pattern g w = feedback_pattern g w')" .
  let ?S = "\<Sum>c\<leftarrow>cs. real c * log 2 (real c)"
  have Hlog: "H = log 2 (real (length C)) - ?S / real (length C)"
    unfolding H by (rule H_terms_log[OF pos sm n])
  have S: "0 \<le> ?S" by (rule weighted_log_nonneg(1)[OF pos])
  then have "0 \<le> ?S / real (length C)" by simp
  then show "H \<le> log 2 (real (length C))" using Hlog by linarith
  have "H = log 2 (real (length C)) \<longleftrightarrow> ?S / real (length C) = 0"
    unfolding Hlog by linarith
  also have "\<dots> \<longleftrightarrow> ?S = 0" using n by simp
  also have "\<dots> \<longleftrightarrow> (\<forall>c \<in> set cs. c = 1)" by (rule weighted_log_nonneg(2)[OF pos])
  also have "\<dots> \<longleftrightarrow> length cs = sum_list cs" by (rule all_ones_iff_length[OF pos])
  also have "\<dots> \<longleftrightarrow> distinct (map (feedback_pattern g) C)"
    unfolding len sm by (rule card_image_length_iff)
  finally show "H = log 2 (real (length C)) \<longleftrightarrow> distinct (map (feedback_pattern g) C)" .
qed

lemma feedback_pattern_total:
  "length g \<le> 5 \<Longrightarrow> length g \<le> length w \<Longrightarrow> \<exists>p. feedback_pattern g w = Inr p"
  by (simp add: feedback_pattern_Inr)

lemma expected_entropy_total:
  assumes "length g \<le> 5" "\<forall>w \<in> set C. length g \<le> length w"
  shows "\<exists>H. expected_entropy g C = Inr H"
proof (cases "C = []")
  case True
  then show ?thesis by (simp add: expected_entropy_def)
next
  case False
  have "\<forall>w \<in> set C. \<exists>p. feedback_pattern g w = Inr p"
    using assms feedback_pattern_total by blast
  then obtain parts where cp: "count_partitions g C [] = Inr parts"
    using count_partitions_total by blast
  from count_partitions_inv[OF cp] have pos: "\<forall>c \<in> set (map snd parts). 0 < c" by auto
  have "sum_entropy (length C) (map snd parts) 0 = Inr (0 + H_terms (length C) (map snd parts))"
    by (rule sum_entropy_Inr) (use False pos in auto)
  then show ?thesis using cp by (simp add: expected_entropy_def)
qed

subsection \<open>Scoring and ranking\<close>

lemma score_serial_executor_map:
  "score_serial zipf pool C alpha acc =
     (case executor_map (score_word_worker zipf) (map (\<lambda>w. (w, C, alpha)) pool) of
        Inl e \<Rightarrow> Inl e
      | Inr ys \<Rightarrow> Inr (acc @ ys))"
  by (induction pool arbitrary: acc) (auto split: sum.splits)

lemma suggest_serial_parallel:
  "suggest_serial zipf pool C alpha topk = suggest_parallel zipf pool C alpha topk"
  by (simp add: suggest_serial_def suggest_parallel_def score_serial_executor_map
      split: sum.splits)

lemma suggest_guesses_serial:
  "suggest_guesses zipf C all alpha topk r =
     suggest_serial zipf (if r then C else all) C alpha topk"
  by (simp add: suggest_guesses_def suggest_serial_parallel Let_def)

lemma ranked_mset: "mset scores' = mset scores \<Longrightarrow> ranked scores' topk = ranked scores topk"
proof -
  assume "mset scores' = mset scores"
  then have "sort scores' = sort scores"
    by (metis properties_for_sort sorted_sort mset_sort)
  then show ?thesis by (simp add: ranked_def sort_reverse_def)
qed

lemma executor_map_scores:
  "executor_map (score_word_worker zipf) (map (\<lambda>w. (w, C, alpha)) pool) = Inr scores \<Longrightarrow>
   map snd scores = pool \<and> (\<forall>(s, w) \<in> set scores. hybrid_score zipf w C alpha = Inr s)"
  by (induction pool arbitrary: scores) (auto split: sum.splits)

lemma executor_map_total:
  "(\<forall>w \<in> set pool. \<exists>s. hybrid_score zipf w C alpha = Inr s) \<Longrightarrow>
   \<exists>scores. executor_map (score_word_worker zipf) (map (\<lambda>w. (w, C, alpha)) pool) = Inr scores"
  by (induction pool) (auto split: sum.splits)

lemma suggest_serial_Inr:
  "suggest_serial zipf pool C alpha topk = Inr ws \<Longrightarrow>
   \<exists>scores. executor_map (score_word_worker zipf) (map (\<lambda>w. (w, C, alpha)) pool) = Inr scores
     \<and> ws = ranked scores topk"
  by (auto simp: suggest_serial_def score_serial_executor_map split: sum.splits)

lemma ranked_descending:
  assumes "distinct (map snd scores)" "0 \<le> k"
  shows "sorted_wrt (\<lambda>a b. b < a) (slice_to (sort_reverse scores) k)"
proof -
  have "distinct scores" using assms(1) by (simp add: distinct_map)
  then have "sorted_wrt (<) (sort scores)"
    by (simp add: strict_sorted_iff)
  then have "sorted_wrt (\<lambda>a b. b < a) (rev (sort scores))"
    by (simp add: sorted_wrt_rev)
  then show ?thesis
    using assms(2) by (simp add: slice_to_def sort_reverse_def sorted_wrt_take)
qed

lemma set_slice_to: "set (slice_to xs k) \<subseteq> set xs"
  by (auto simp: slice_to_def dest: in_set_takeD)

lemma length_slice_to: "0 \<le> k \<Longrightarrow> length (slice_to xs k) \<le> nat k"
  by (simp add: slice_to_def)

lemma hybrid_score_freq_norm:
  "hybrid_score zipf g C alpha =
     (case expected_entropy g C of
        Inl e \<Rightarrow> Inl e
      | Inr H \<Rightarrow> Inr (alpha * H + (1 - alpha) * freq_norm (zipf g)))"
  by (simp add: hybrid_score_def freq_norm_def Let_def max.commute min.commute split: sum.splits)

lemma freq_norm_range: "0 \<le> freq_norm f \<and> freq_norm f \<le> 1"
  by (simp add: freq_norm_def)

lemma freq_norm_low: "f \<le> 1 \<Longrightarrow> freq_norm f = 0"
  by (simp add: freq_norm_def)

subsection \<open>Scoring and ranking in doubles\<close>

lemma exact_ops_sel:
  "fl_add exact_ops = (+)" "fl_sub exact_ops = (-)" "fl_mul exact_ops = (*)"
  "fl_div exact_ops = (/)" "fl_log2 exact_ops = log 2"
  by (simp_all add: exact_ops_def)

lemma sum_entropy_fl_exact: "sum_entropy_fl exact_ops tot cs acc = sum_entropy tot cs acc"
  by (induction cs arbitrary: acc) (simp_all add: exact_ops_sel Let_def)

lemma expected_entropy_fl_exact: "expected_entropy_fl exact_ops g C = expected_entropy g C"
  by (simp add: expected_entropy_fl_def expected_entropy_def sum_entropy_fl_exact
      cong: sum.case_cong)

lemma hybrid_score_fl_exact:
  "hybrid_score_fl exact_ops zipf g C alpha = hybrid_score zipf g C alpha"
  by (simp add: hybrid_score_fl_def hybrid_score_def expected_entropy_fl_exact exact_ops_sel
      cong: sum.case_cong)

lemma score_serial_fl_exact:
  "score_serial_fl exact_ops zipf pool C alpha acc = score_serial zipf pool C alpha acc"
  by (induction pool arbitrary: acc) (simp_all add: hybrid_score_fl_exact cong: sum.case_cong)

lemma score_word_worker_fl_exact:
  "score_word_worker_fl exact_ops zipf = score_word_worker zipf"
  by (rule ext) (auto simp: hybrid_score_fl_exact)

lemma suggest_guesses_fl_exact:
  "suggest_guesses_fl exact_ops zipf C all alpha topk r = suggest_guesses zipf C all alpha topk r"
  by (simp add: suggest_guesses_fl_def suggest_guesses_def suggest_serial_fl_def
      suggest_serial_def suggest_parallel_fl_def suggest_parallel_def
      score_serial_fl_exact score_word_worker_fl_exact cong: sum.case_cong)

lemma score_serial_fl_executor_map:
  "score_serial_fl fl zipf pool C alpha acc =
     (case executor_map (score_word_worker_fl fl zipf) (map (\<lambda>w. (w, C, alpha)) pool) of
        Inl e \<Rightarrow> Inl e
      | Inr ys \<Rightarrow> Inr (acc @ ys))"
  by (induction pool arbitrary: acc) (auto split: sum.splits)

lemma suggest_guesses_fl_serial:
  "suggest_guesses_fl fl zipf C all alpha topk r =
     suggest_serial_fl fl zipf (if r then C else all) C alpha topk"
  by (simp add: suggest_guesses_fl_def suggest_serial_fl_def suggest_parallel_fl_def
      score_serial_fl_executor_map Let_def split: sum.splits)

lemma executor_map_scores_fl:
  "executor_map (score_word_worker_fl fl zipf) (map (\<lambda>w. (w, C, alpha)) pool) = Inr scores \<Longrightarrow>
   map snd scores = pool \<and> (\<forall>(s, w) \<in> set scores. hybrid_score_fl fl zipf w C alpha = Inr s)"
  by (induction pool arbitrary: scores) (auto split: sum.splits)

lemma executor_map_total_fl:
  "(\<forall>w \<in> set pool. \<exists>s. hybrid_score_fl fl zipf w C alpha = Inr s) \<Longrightarrow>
   \<exists>scores. executor_map (score_word_worker_fl fl zipf) (map (\<lambda>w. (w, C, alpha)) pool) = Inr scores"
  by (induction pool) (auto split: sum.splits)

lemma suggest_serial_fl_Inr:
  "suggest_serial_fl fl zipf pool C alpha topk = Inr ws \<Longrightarrow>
   \<exists>scores. executor_map (score_word_worker_fl fl zipf) (map (\<lambda>w. (w, C, alpha)) pool) = Inr scores
     \<and> ws = ranked scores topk"
  by (auto simp: suggest_serial_fl_def score_serial_fl_executor_map split: sum.splits)

lemma sum_entropy_fl_total:
  assumes "\<forall>c n :: nat. 0 < c \<and> 0 < n \<longrightarrow> 0 < fl_div fl (real c) (real n)"
    and "0 < tot" and "\<forall>c \<in> set cs. 0 < c"
  shows "\<exists>H. sum_entropy_fl fl tot cs acc = Inr H"
  using assms(3)
proof (induction cs arbitrary: acc)
  case Nil
  then show ?case by simp
next
  case (Cons c cs)
  then have "0 < fl_div fl (real c) (real tot)" using assms(1,2) by simp
  then have "\<not> fl_div fl (real c) (real tot) \<le> 0" by linarith
  with Cons assms(2) show ?case by (simp add: Let_def)
qed

lemma expected_entropy_fl_total:
  assumes "\<forall>c n :: nat. 0 < c \<and> 0 < n \<longrightarrow> 0 < fl_div fl (real c) (real n)"
    and "length g \<le> 5" "\<forall>w \<in> set C. length g \<le> length w"
  shows "\<exists>H. expected_entropy_fl fl g C = Inr H"
proof (cases "C = []")
  case True
  then show ?thesis by (simp add: expected_entropy_fl_def)
next
  case False
  have "\<forall>w \<in> set C. \<exists>p. feedback_pattern g w = Inr p"
    using assms(2,3) feedback_pattern_total by blast
  then obtain parts where cp: "count_partitions g C [] = Inr parts"
    using count_partitions_total by blast
  from count_partitions_inv[OF cp] have pos: "\<forall>c \<in> set (map snd parts). 0 < c" by auto
  have "\<exists>H. sum_entropy_fl fl (length C) (map snd parts) 0 = Inr H"
    by (rule sum_entropy_fl_total[OF assms(1)]) (use False pos in auto)
  then show ?thesis using cp by (simp add: expected_entropy_fl_def)
qed

lemma hybrid_score_fl_total:
  assumes "\<forall>c n :: nat. 0 < c \<and> 0 < n \<longrightarrow> 0 < fl_div fl (real c) (real n)"
    and "length g \<le> 5" "\<forall>w \<in> set C. length g \<le> length w"
  shows "\<exists>s. hybrid_score_fl fl zipf g C alpha = Inr s"
  using expected_entropy_fl_total[OF assms] by (auto simp: hybrid_score_fl_def Let_def)

lemma suggest_guesses_fl_total:
  assumes "\<forall>c n :: nat. 0 < c \<and> 0 < n \<longrightarrow> 0 < fl_div fl (real c) (real n)"
    and "\<forall>w \<in> set C. length w = 5" "\<forall>w \<in> set all. length w = 5"
  shows "\<exists>ws. suggest_guesses_fl fl zipf C all alpha topk r = Inr ws"
proof -
  let ?pool = "if r then C else all"
  have "\<forall>w \<in> set ?pool. \<exists>s. hybrid_score_fl fl zipf w C alpha = Inr s"
    using assms(2,3) by (auto intro!: hybrid_score_fl_total[OF assms(1)])
  then obtain scores where
    "executor_map (score_word_worker_fl fl zipf) (map (\<lambda>w. (w, C, alpha)) ?pool) = Inr scores"
    using executor_map_total_fl by blast
  then show ?thesis
    by (simp add: suggest_guesses_fl_serial suggest_serial_fl_def score_serial_fl_executor_map)
qed

lemma suggest_guesses_fl_descending:
  assumes "suggest_guesses_fl fl zipf C all alpha k r = Inr ws"
    and "distinct (if r then C else all)" and "1 \<le> k"
  shows "length ws \<le> nat k \<and>
    sorted_wrt (\<lambda>a b. \<exists>sa sb. hybrid_score_fl fl zipf a C alpha = Inr sa
                  \<and> hybrid_score_fl fl zipf b C alpha = Inr sb
                  \<and> (sb < sa \<or> (sb = sa \<and> b < a))) ws"
proof -
  let ?pool = "if r then C else all"
  from assms(1) have "suggest_serial_fl fl zipf ?pool C alpha k = Inr ws"
    by (simp add: suggest_guesses_fl_serial)
  then obtain scores where
    sc: "executor_map (score_word_worker_fl fl zipf) (map (\<lambda>w. (w, C, alpha)) ?pool) = Inr scores"
    and ws: "ws = ranked scores k"
    using suggest_serial_fl_Inr by blast
  from executor_map_scores_fl[OF sc]
  have pool: "map snd scores = ?pool"
    and hs: "\<forall>(s, w) \<in> set scores. hybrid_score_fl fl zipf w C alpha = Inr s" by auto
  let ?top = "slice_to (sort_reverse scores) k"
  have desc: "sorted_wrt (\<lambda>a b. b < a) ?top"
    using assms(2,3) pool by (intro ranked_descending) auto
  have sub: "set ?top \<subseteq> set scores"
    using set_slice_to[of "sort_reverse scores" k] by (simp add: sort_reverse_def)
  have "sorted_wrt (\<lambda>x y. \<exists>sa sb. hybrid_score_fl fl zipf (snd x) C alpha = Inr sa
                  \<and> hybrid_score_fl fl zipf (snd y) C alpha = Inr sb
                  \<and> (sb < sa \<or> (sb = sa \<and> snd y < snd x))) ?top"
  proof (rule sorted_wrt_mono_rel[OF _ desc])
    fix x y assume "x \<in> set ?top" "y \<in> set ?top" "y < x"
    then have "hybrid_score_fl fl zipf (snd x) C alpha = Inr (fst x)"
      "hybrid_score_fl fl zipf (snd y) C alpha = Inr (fst y)"
      using hs sub by (auto simp: case_prod_beta)
    moreover have "fst y < fst x \<or> (fst y = fst x \<and> snd y < snd x)"
      using \<open>y < x\<close> by (auto simp: less_prod_def)
    ultimately show "\<exists>sa sb. hybrid_score_fl fl zipf (snd x) C alpha = Inr sa
                  \<and> hybrid_score_fl fl zipf (snd y) C alpha = Inr sb
                  \<and> (sb < sa \<or> (sb = sa \<and> snd y < snd x))" by blast
  qed
  then have "sorted_wrt (\<lambda>a b. \<exists>sa sb. hybrid_score_fl fl zipf a C alpha = Inr sa
                  \<and> hybrid_score_fl fl zipf b C alpha = Inr sb
                  \<and> (sb < sa \<or> (sb = sa \<and> b < a))) ws"
    by (simp add: ws ranked_def sorted_wrt_map)
  moreover have "length ws \<le> nat k"
    using assms(3) length_slice_to[of k "sort_reverse scores"] by (simp add: ws ranked_def)
  ultimately show ?thesis by simp
qed

subsection \<open>The solver\<close>

lemma str_lower_length: "length (str_lower w) = length w"
  by (simp add: str_lower_def)

lemma build_dictionary_length:
  "w \<in> set (build_dictionary top_n_list scraped n_top flt) \<Longrightarrow> length w = 5"
  by (auto simp: build_dictionary_def Let_def str_lower_length split: if_splits option.splits)

lemma filter_candidates_five:
  assumes "length g \<le> 5" "\<forall>w \<in> set C. length g \<le> length w"
  shows "filter_candidates C g p = Inr (filter (\<lambda>w. feedback_pattern g w = Inr p) C)"
  using assms(2)
proof (induction C)
  case Nil
  then show ?case by simp
next
  case (Cons w C)
  then obtain q where "feedback_pattern g w = Inr q"
    using feedback_pattern_total[OF assms(1), of w] by auto
  with Cons show ?case by auto
qed

lemma hybrid_score_total:
  assumes "length g \<le> 5" "\<forall>w \<in> set C. length g \<le> length w"
  shows "\<exists>s. hybrid_score zipf g C alpha = Inr s"
  using expected_entropy_total[OF assms] by (auto simp: hybrid_score_def Let_def)

lemma suggest_guesses_total:
  assumes "\<forall>w \<in> set C. length w = 5" "\<forall>w \<in> set all. length w = 5"
  shows "\<exists>ws. suggest_guesses zipf C all alpha topk r = Inr ws"
proof -
  let ?pool = "if r then C else all"
  have "\<forall>w \<in> set ?pool. \<exists>s. hybrid_score zipf w C alpha = Inr s"
    using assms by (auto intro!: hybrid_score_total)
  then obtain scores where
    "executor_map (score_word_worker zipf) (map (\<lambda>w. (w, C, alpha)) ?pool) = Inr scores"
    using executor_map_total by blast
  then show ?thesis
    by (simp add: suggest_guesses_serial suggest_serial_def score_serial_executor_map)
qed

lemma guess_state:
  assumes "\<forall>w \<in> set (candidates s). length w = 5" "length word = 5"
  shows "snd (WordleSolver_guess zipf word pattern alpha topk r s) =
     s\<lparr> history := history s @ [(word, pattern)],
        candidates := filter (\<lambda>w. feedback_pattern word w = Inr pattern) (candidates s) \<rparr>"
proof -
  have "filter_candidates (candidates s) word pattern
      = Inr (filter (\<lambda>w. feedback_pattern word w = Inr pattern) (candidates s))"
    by (rule filter_candidates_five) (use assms in auto)
  then show ?thesis by (simp add: WordleSolver_guess_def Let_def)
qed

lemma guess_returns:
  assumes "\<forall>w \<in> set (candidates s). length w = 5" "\<forall>w \<in> set (all_words s). length w = 5"
    "length word = 5"
  shows "\<exists>suggested. fst (WordleSolver_guess zipf word pattern alpha topk r s) = Inr suggested"
proof -
  let ?kept = "filter (\<lambda>w. feedback_pattern word w = Inr pattern) (candidates s)"
  have f: "filter_candidates (candidates s) word pattern = Inr ?kept"
    by (rule filter_candidates_five) (use assms in auto)
  have "\<exists>ws. suggest_guesses zipf ?kept (all_words s) alpha topk r = Inr ws"
    by (rule suggest_guesses_total) (use assms in auto)
  then show ?thesis using f by (auto simp: WordleSolver_guess_def Let_def)
qed

lemma reachable_inv: "reachable zipf s \<Longrightarrow> session_inv s"
proof (induction rule: reachable.induct)
  case (init top_n_list scraped n_top filter_past_answers)
  then show ?case
    by (auto simp: session_inv_def WordleSolver_init_def Let_def build_dictionary_length)
next
  case (guess self word pattern alpha topk restrict_guesses)
  then have c: "\<forall>w \<in> set (candidates self). length w = 5" by (simp add: session_inv_def)
  show ?case
    unfolding guess_state[OF c guess.hyps(2)]
    using guess.IH by (auto simp: session_inv_def)
next
  case (reset self)
  then show ?case by (simp add: session_inv_def WordleSolver_reset_def)
qed

lemma reset_init_candidates:
  "candidates (WordleSolver_reset (WordleSolver_init top_n_list scraped n_top flt))
     = build_dictionary top_n_list scraped n_top False"
  by (simp add: WordleSolver_reset_def WordleSolver_init_def Let_def)

lemma reset_init_unfiltered:
  "WordleSolver_reset (WordleSolver_init top_n_list scraped n_top False)
     = WordleSolver_init top_n_list scraped n_top False"
  by (simp add: WordleSolver_reset_def WordleSolver_init_def Let_def)

lemma reset_history: "history (WordleSolver_reset s) = []"
  by (simp add: WordleSolver_reset_def)

lemma guess_candidates:
  assumes "WordleSolver_guess zipf word pattern alpha topk r s = (out, s')"
  shows "(\<exists>e. out = Inl e \<and> candidates s' = candidates s)
    \<or> candidates s' = filter (\<lambda>w. feedback_pattern word w = Inr pattern) (candidates s)"
proof (cases "filter_candidates (candidates s) word pattern")
  case (Inl e)
  have "WordleSolver_guess zipf word pattern alpha topk r s
      = (Inl e, s\<lparr> history := history s @ [(word, pattern)] \<rparr>)"
    by (simp add: WordleSolver_guess_def Let_def Inl)
  with assms have "out = Inl e" "s' = s\<lparr> history := history s @ [(word, pattern)] \<rparr>"
    by simp_all
  then show ?thesis by simp
next
  case (Inr kept)
  then have "kept = filter (\<lambda>w. feedback_pattern word w = Inr pattern) (candidates s)"
    by (rule filter_candidates_eq)
  moreover have "snd (WordleSolver_guess zipf word pattern alpha topk r s)
      = s\<lparr> history := history s @ [(word, pattern)], candidates := kept \<rparr>"
    by (simp add: WordleSolver_guess_def Let_def Inr)
  ultimately show ?thesis using assms by simp
qed

lemma guess_exhausted_state:
  assumes "filter_candidates (candidates s) word pattern = Inr []"
  shows "WordleSolver_guess zipf word pattern alpha topk r s
     = (Inr [], s\<lparr> history := history s @ [(word, pattern)], candidates := [] \<rparr>)"
  using assms by (simp add: WordleSolver_guess_def Let_def)

lemma guess_no_candidates:
  assumes "candidates s = []"
  shows "WordleSolver_guess zipf word pattern alpha topk r s
     = (Inr [], s\<lparr> history := history s @ [(word, pattern)], candidates := [] \<rparr>)"
  using assms by (simp add: WordleSolver_guess_def Let_def)

subsection \<open>Evaluations at concrete inputs\<close>

lemma fp_crane_crane: "feedback_pattern ''crane'' ''crane'' = Inr [2, 2, 2, 2, 2]" by code_simp
lemma fp_crane_trace: "feedback_pattern ''crane'' ''trace'' = Inr [1, 2, 2, 0, 2]" by code_simp
lemma fp_trace_crane: "feedback_pattern ''trace'' ''crane'' = Inr [0, 2, 2, 1, 2]" by code_simp
lemma fp_trace_trace: "feedback_pattern ''trace'' ''trace'' = Inr [2, 2, 2, 2, 2]" by code_simp

lemma ee_crane: "expected_entropy ''crane'' [''crane'', ''trace''] = Inr 1"
  by (simp add: expected_entropy_def fp_crane_crane fp_crane_trace log_divide)

lemma ee_trace: "expected_entropy ''trace'' [''crane'', ''trace''] = Inr 1"
  by (simp add: expected_entropy_def fp_trace_crane fp_trace_trace log_divide)

lemma hs_crane: "hybrid_score (\<lambda>w. 3) ''crane'' [''crane'', ''trace''] (7 / 10) = Inr (4 / 5)"
  by (simp add: hybrid_score_def ee_crane)

lemma hs_trace: "hybrid_score (\<lambda>w. 3) ''trace'' [''crane'', ''trace''] (7 / 10) = Inr (4 / 5)"
  by (simp add: hybrid_score_def ee_trace)

lemma word_order: "''crane'' < ''trace''"
  by code_simp

lemma sg: "suggest_guesses (\<lambda>w. 3) [''crane'', ''trace''] [] (7 / 10) 5 True = Inr [''trace'', ''crane'']"
  using word_order
  by (simp add: suggest_guesses_def suggest_serial_def hs_crane hs_trace ranked_def
      sort_reverse_def slice_to_def less_eq_prod_def insort_key.simps)


lemma em_crane_trace:
  "executor_map (score_word_worker (\<lambda>w. 3))
     (map (\<lambda>w. (w, [''crane'', ''trace''], 7 / 10)) [''crane'', ''trace''])
   = Inr [(4 / 5, ''crane''), (4 / 5, ''trace'')]"
  by (simp add: hs_crane hs_trace)

lemma hs_half_crane: "hybrid_score (\<lambda>w. 4) ''crane'' [''crane'', ''trace''] (1 / 2) = Inr (3 / 4)"
  by (simp add: hybrid_score_def ee_crane)

lemma hs_half_trace: "hybrid_score (\<lambda>w. 4) ''trace'' [''crane'', ''trace''] (1 / 2) = Inr (3 / 4)"
  by (simp add: hybrid_score_def ee_trace)

lemma sg_half:
  "suggest_guesses (\<lambda>w. 4) [''crane'', ''trace''] [] (1 / 2) 5 True = Inr [''trace'', ''crane'']"
  using word_order
  by (simp add: suggest_guesses_def suggest_serial_def hs_half_crane hs_half_trace ranked_def
      sort_reverse_def slice_to_def less_eq_prod_def insort_key.simps)

lemma sg_half1:
  "suggest_guesses (\<lambda>w. 4) [''crane'', ''trace''] [] (1 / 2) 1 True = Inr [''trace'']"
  using word_order
  by (simp add: suggest_guesses_def suggest_serial_def hs_half_crane hs_half_trace ranked_def
      sort_reverse_def slice_to_def less_eq_prod_def insort_key.simps)

lemma exact_ops_div_pos:
  "\<forall>c n :: nat. 0 < c \<and> 0 < n \<longrightarrow> 0 < fl_div exact_ops (real c) (real n)"
  by (simp add: exact_ops_sel)

lemma demo_solver_eq:
  "demo_solver = \<lparr> all_words = [''crane'', ''plate'', ''slate'', ''stale'', ''trace''],
                  candidates = [''crane'', ''plate'', ''slate'', ''stale'', ''trace''],
                  history = [] \<rparr>"
  by code_simp

lemma demo_filter:
  "filter_candidates [''crane'', ''plate'', ''slate'', ''stale'', ''trace''] ''crane'' [1, 2, 2, 0, 2]
     = Inr [''trace'']"
  by code_simp

lemma demo_guess:
  "WordleSolver_guess zipf ''crane'' [1, 2, 2, 0, 2] alpha topk r demo_solver
     = (Inr [''trace''],
        \<lparr> all_words = [''crane'', ''plate'', ''slate'', ''stale'', ''trace''],
          candidates = [''trace''],
          history = [(''crane'', [1, 2, 2, 0, 2])] \<rparr>)"
  by (simp add: demo_solver_eq WordleSolver_guess_def demo_filter Let_def
      del: filter_candidates.simps)

lemma demo_filter_none:
  "filter_candidates (candidates demo_solver) ''trace'' [2, 2, 2, 2, 0] = Inr []"
  by code_simp

lemma demo_word: "str_lower ''TRACE'' = ''trace'' \<and> str_isalpha ''trace''"
  by code_simp

section \<open>The claims\<close>

text \<open>
  C3: for a guess and a target of five letters, \<^verbatim>\<open>feedback_pattern\<close> returns the
  pattern of the two-pass reference definition (greens first, consuming their target
  letters; then, left to right, yellow where the guess letter still occurs among the
  remaining target letters, consuming one occurrence, and gray otherwise); and the
  feedback of "crane" against "trace" is (1, 2, 2, 0, 2).
\<close>

theorem feedback_pattern_two_pass:
  "(length guess = 5 \<and> length target = 5 \<longrightarrow>
      feedback_pattern guess target = Inr (feedback_reference guess target))
   \<and> feedback_pattern ''crane'' ''trace'' = Inr [1, 2, 2, 0, 2]"
proof
  show "length guess = 5 \<and> length target = 5 \<longrightarrow>
      feedback_pattern guess target = Inr (feedback_reference guess target)"
    by (simp add: feedback_pattern_reference)
  show "feedback_pattern ''crane'' ''trace'' = Inr [1, 2, 2, 0, 2]"
    by code_simp
qed

theorem feedback_pattern_two_pass_witness:
  "length ''speed'' = 5 \<and> length ''abide'' = 5
   \<and> feedback_pattern ''speed'' ''abide'' = Inr (feedback_reference ''speed'' ''abide'')
   \<and> feedback_reference ''speed'' ''abide'' = [0, 0, 1, 0, 1]"
proof -
  have a: "feedback_pattern ''speed'' ''abide'' = Inr (feedback_reference ''speed'' ''abide'')"
    using feedback_pattern_two_pass [of "''speed''" "''abide''"] by simp
  have b: "feedback_pattern ''speed'' ''abide'' = Inr [0, 0, 1, 0, 1]"
    by code_simp
  show ?thesis using a b by simp
qed

text \<open>
  C9: filtering an already filtered candidate list again by the same guess and pattern
  changes nothing. The first conjunct covers the raising calls too: when the first
  filtering raises, so does the composition, with the same exception. The second is the
  case of a call that returns.
\<close>

theorem filter_candidates_idempotent:
  "(case filter_candidates C g p of
      Inl e \<Rightarrow> Inl e
    | Inr C' \<Rightarrow> filter_candidates C' g p) = filter_candidates C g p
   \<and> (filter_candidates C g p = Inr kept \<longrightarrow> filter_candidates kept g p = Inr kept)"
proof -
  have "(case filter_candidates C g p of
      Inl e \<Rightarrow> Inl e
    | Inr C' \<Rightarrow> filter_candidates C' g p) = filter_candidates C g p"
    by (induction C) (auto split: sum.splits)
  then show ?thesis by auto
qed

theorem filter_candidates_idempotent_witness:
  "filter_candidates [''crane'', ''trace'', ''slate'', ''stale'', ''plate''] ''crane'' [1, 2, 2, 0, 2]
     = Inr [''trace'']
   \<and> filter_candidates [''trace''] ''crane'' [1, 2, 2, 0, 2] = Inr [''trace'']"
proof -
  let ?C = "[''crane'', ''trace'', ''slate'', ''stale'', ''plate'']"
  have a: "filter_candidates ?C ''crane'' [1, 2, 2, 0, 2] = Inr [''trace'']"
    by code_simp
  show ?thesis
    using filter_candidates_idempotent [where C = ?C and g = "''crane''" and p = "[1, 2, 2, 0, 2]"] a
    by simp
qed

text \<open>
  C10: on an empty candidate list \<^verbatim>\<open>expected_entropy\<close> returns 0.0 and does not
  raise: no partition is realised, so the division by \<^verbatim>\<open>total = 0\<close> is never reached.
\<close>

theorem expected_entropy_empty: "expected_entropy g [] = Inr 0"
  by (simp add: expected_entropy_def)

theorem expected_entropy_empty_witness: "expected_entropy ''crane'' [] = Inr 0"
  by (rule expected_entropy_empty)

text \<open>
  C1: \<^verbatim>\<open>reset()\<close> is to restore the candidate list the solver held at construction.
  It does not when the solver was built with \<^verbatim>\<open>filter_past_answers=True\<close> and a
  past answer is in the dictionary: with the dictionary words "trace" and "crane" and
  the past answer "crane", the solver starts with the candidate "trace" alone, and
  \<^verbatim>\<open>reset()\<close> leaves it with both words.
\<close>

theorem reset_differs_from_initial:
  "candidates (WordleSolver_init (\<lambda>n. [''trace'', ''crane'']) (Some [''crane'']) 100000 True)
     = [''trace'']
   \<and> candidates (WordleSolver_reset
        (WordleSolver_init (\<lambda>n. [''trace'', ''crane'']) (Some [''crane'']) 100000 True))
     = [''crane'', ''trace'']"
  by code_simp


text \<open>
  C2: the serial scoring path of \<^verbatim>\<open>suggest_guesses\<close> (pools of fewer than 500
  words) and the parallel path (larger pools) return the same ranked list for every
  pool, candidate list, alpha and topk, raising calls included, so
  \<^verbatim>\<open>suggest_guesses\<close> is the serial path whatever the size of the pool. Each unit of
  work is the function \<open>score_word_worker\<close> of (word, candidates, alpha) alone, and the
  ranking sorts before it truncates: the results of the workers, taken in any order of
  arrival (any list \<open>scores'\<close> with the same elements), give the list of the serial path.
\<close>

theorem serial_parallel_identical:
  "suggest_serial zipf pool C alpha topk = suggest_parallel zipf pool C alpha topk
   \<and> suggest_guesses zipf C all alpha topk r
       = suggest_serial zipf (if r then C else all) C alpha topk
   \<and> (executor_map (score_word_worker zipf) (map (\<lambda>w. (w, C, alpha)) pool) = Inr scores
        \<and> mset scores' = mset scores
      \<longrightarrow> suggest_serial zipf pool C alpha topk = Inr (ranked scores' topk))"
proof (intro conjI impI)
  show "suggest_serial zipf pool C alpha topk = suggest_parallel zipf pool C alpha topk"
    by (rule suggest_serial_parallel)
  show "suggest_guesses zipf C all alpha topk r
       = suggest_serial zipf (if r then C else all) C alpha topk"
    by (rule suggest_guesses_serial)
  assume a: "executor_map (score_word_worker zipf) (map (\<lambda>w. (w, C, alpha)) pool) = Inr scores
        \<and> mset scores' = mset scores"
  then have "ranked scores' topk = ranked scores topk" by (intro ranked_mset) simp
  with a show "suggest_serial zipf pool C alpha topk = Inr (ranked scores' topk)"
    by (simp add: suggest_serial_def score_serial_executor_map)
qed

theorem serial_parallel_identical_witness:
  "suggest_parallel (\<lambda>w. 3) [''crane'', ''trace''] [''crane'', ''trace''] (7 / 10) 5
     = Inr [''trace'', ''crane'']
   \<and> suggest_serial (\<lambda>w. 3) [''crane'', ''trace''] [''crane'', ''trace''] (7 / 10) 5
     = Inr (ranked [(4 / 5, ''trace''), (4 / 5, ''crane'')] 5)"
proof -
  let ?C = "[''crane'', ''trace'']"
  have m: "mset [(4 / 5 :: real, ''trace''), (4 / 5, ''crane'')]
      = mset [(4 / 5, ''crane''), (4 / 5, ''trace'')]" by simp
  note t = serial_parallel_identical [where zipf = "\<lambda>w. 3" and pool = ?C and C = ?C
      and alpha = "7 / 10" and topk = 5 and all = "[]" and r = True
      and scores = "[(4 / 5, ''crane''), (4 / 5, ''trace'')]"
      and scores' = "[(4 / 5, ''trace''), (4 / 5, ''crane'')]"]
  from t have "suggest_parallel (\<lambda>w. 3) ?C ?C (7 / 10) 5
      = suggest_guesses (\<lambda>w. 3) ?C [] (7 / 10) 5 True" by simp
  moreover from t em_crane_trace m
  have "suggest_serial (\<lambda>w. 3) ?C ?C (7 / 10) 5
     = Inr (ranked [(4 / 5, ''trace''), (4 / 5, ''crane'')] 5)" by blast
  ultimately show ?thesis by (simp add: sg)
qed

text \<open>
  C6: when the guess pool has no duplicates and \<open>k \<ge> 1\<close>, the list that
  \<^verbatim>\<open>suggest_guesses\<close> returns has at most \<open>k\<close> words, and every word in it stands
  strictly above every later one in the order of the pairs (score, word): a higher
  hybrid score, or the same score and a lexicographically greater word. The score is the
  one the interpreter computes, \<open>hybrid_score_fl\<close>, whatever the rounding of the float
  operations. On words of five letters the function returns, provided the quotient of
  two positive counts is a positive double.
\<close>

theorem suggest_guesses_fl_ranked:
  "((\<forall>c n :: nat. 0 < c \<and> 0 < n \<longrightarrow> 0 < fl_div fl (real c) (real n))
      \<and> (\<forall>w \<in> set C. length w = 5) \<and> (\<forall>w \<in> set all. length w = 5) \<longrightarrow>
      (\<exists>ws. suggest_guesses_fl fl zipf C all alpha k r = Inr ws))
   \<and> (suggest_guesses_fl fl zipf C all alpha k r = Inr ws
        \<and> distinct (if r then C else all) \<and> 1 \<le> k
        \<longrightarrow> int (length ws) \<le> k
          \<and> sorted_wrt (\<lambda>a b. \<exists>sa sb. hybrid_score_fl fl zipf a C alpha = Inr sa
                  \<and> hybrid_score_fl fl zipf b C alpha = Inr sb
                  \<and> (sb < sa \<or> (sb = sa \<and> b < a))) ws)"
proof (intro conjI impI)
  assume "(\<forall>c n :: nat. 0 < c \<and> 0 < n \<longrightarrow> 0 < fl_div fl (real c) (real n))
      \<and> (\<forall>w \<in> set C. length w = 5) \<and> (\<forall>w \<in> set all. length w = 5)"
  then show "\<exists>ws. suggest_guesses_fl fl zipf C all alpha k r = Inr ws"
    by (intro suggest_guesses_fl_total) auto
next
  assume a: "suggest_guesses_fl fl zipf C all alpha k r = Inr ws
        \<and> distinct (if r then C else all) \<and> 1 \<le> k"
  then have d: "length ws \<le> nat k \<and>
    sorted_wrt (\<lambda>a b. \<exists>sa sb. hybrid_score_fl fl zipf a C alpha = Inr sa
                  \<and> hybrid_score_fl fl zipf b C alpha = Inr sb
                  \<and> (sb < sa \<or> (sb = sa \<and> b < a))) ws"
    by (intro suggest_guesses_fl_descending) auto
  then show "int (length ws) \<le> k" using a by linarith
  from d show "sorted_wrt (\<lambda>a b. \<exists>sa sb. hybrid_score_fl fl zipf a C alpha = Inr sa
                  \<and> hybrid_score_fl fl zipf b C alpha = Inr sb
                  \<and> (sb < sa \<or> (sb = sa \<and> b < a))) ws" by simp
qed

theorem suggest_guesses_fl_ranked_witness:
  "(\<exists>ws. suggest_guesses_fl exact_ops (\<lambda>w. 4) [''crane'', ''trace''] [] (1 / 2) 5 True = Inr ws)
   \<and> suggest_guesses_fl exact_ops (\<lambda>w. 4) [''crane'', ''trace''] [] (1 / 2) 5 True
       = Inr [''trace'', ''crane'']
   \<and> distinct [''crane'', ''trace''] \<and> (1 :: int) \<le> 5
   \<and> int (length [''trace'', ''crane'']) \<le> 5
   \<and> (\<exists>sa sb. hybrid_score_fl exact_ops (\<lambda>w. 4) ''trace'' [''crane'', ''trace''] (1 / 2) = Inr sa
         \<and> hybrid_score_fl exact_ops (\<lambda>w. 4) ''crane'' [''crane'', ''trace''] (1 / 2) = Inr sb
         \<and> (sb < sa \<or> (sb = sa \<and> ''crane'' < ''trace'')))
   \<and> suggest_guesses_fl exact_ops (\<lambda>w. 4) [''crane'', ''trace''] [] (1 / 2) 1 True
       = Inr [''trace'']"
proof -
  have s5: "suggest_guesses_fl exact_ops (\<lambda>w. 4) [''crane'', ''trace''] [] (1 / 2) 5 True
       = Inr [''trace'', ''crane'']"
    by (simp only: suggest_guesses_fl_exact sg_half)
  have s1: "suggest_guesses_fl exact_ops (\<lambda>w. 4) [''crane'', ''trace''] [] (1 / 2) 1 True
       = Inr [''trace'']"
    by (simp only: suggest_guesses_fl_exact sg_half1)
  note t = suggest_guesses_fl_ranked [where fl = exact_ops and zipf = "\<lambda>w. 4"
      and C = "[''crane'', ''trace'']" and all = "[]" and alpha = "1 / 2" and k = 5
      and r = True and ws = "[''trace'', ''crane'']"]
  have "sorted_wrt (\<lambda>a b. \<exists>sa sb.
            hybrid_score_fl exact_ops (\<lambda>w. 4) a [''crane'', ''trace''] (1 / 2) = Inr sa
          \<and> hybrid_score_fl exact_ops (\<lambda>w. 4) b [''crane'', ''trace''] (1 / 2) = Inr sb
          \<and> (sb < sa \<or> (sb = sa \<and> b < a))) [''trace'', ''crane'']"
    using t s5 by simp
  then have "\<exists>sa sb. hybrid_score_fl exact_ops (\<lambda>w. 4) ''trace'' [''crane'', ''trace''] (1 / 2) = Inr sa
         \<and> hybrid_score_fl exact_ops (\<lambda>w. 4) ''crane'' [''crane'', ''trace''] (1 / 2) = Inr sb
         \<and> (sb < sa \<or> (sb = sa \<and> ''crane'' < ''trace''))"
    by simp
  moreover have "\<exists>ws. suggest_guesses_fl exact_ops (\<lambda>w. 4) [''crane'', ''trace''] []
      (1 / 2) 5 True = Inr ws"
    using t exact_ops_div_pos by simp
  ultimately show ?thesis using s5 s1 by simp
qed

text \<open>
  C8: for alpha in [0, 1], \<^verbatim>\<open>hybrid_score\<close> is alpha times the expected entropy plus
  (1 - alpha) times the frequency clamped to [1, 7] and rescaled to [0, 1]; for a
  frequency of at most 1 (as for an unknown word) the frequency term is exactly 0, and
  the call raises only if \<^verbatim>\<open>expected_entropy\<close> does, which it does not on words of
  five letters.
\<close>

theorem hybrid_score_blend:
  "0 \<le> alpha \<and> alpha \<le> 1 \<longrightarrow>
     hybrid_score zipf g C alpha =
       (case expected_entropy g C of
          Inl e \<Rightarrow> Inl e
        | Inr H \<Rightarrow> Inr (alpha * H + (1 - alpha) * freq_norm (zipf g)))
     \<and> 0 \<le> freq_norm (zipf g) \<and> freq_norm (zipf g) \<le> 1
     \<and> (zipf g \<le> 1 \<longrightarrow>
          (1 - alpha) * freq_norm (zipf g) = 0
          \<and> hybrid_score zipf g C alpha =
              (case expected_entropy g C of Inl e \<Rightarrow> Inl e | Inr H \<Rightarrow> Inr (alpha * H)))
     \<and> (length g = 5 \<and> (\<forall>w \<in> set C. length w = 5) \<longrightarrow>
          (\<exists>s. hybrid_score zipf g C alpha = Inr s))"
proof (intro conjI impI)
  show "hybrid_score zipf g C alpha =
       (case expected_entropy g C of
          Inl e \<Rightarrow> Inl e
        | Inr H \<Rightarrow> Inr (alpha * H + (1 - alpha) * freq_norm (zipf g)))"
    by (rule hybrid_score_freq_norm)
  show "0 \<le> freq_norm (zipf g)" "freq_norm (zipf g) \<le> 1"
    using freq_norm_range by auto
next
  assume "zipf g \<le> 1"
  then have z: "freq_norm (zipf g) = 0" by (rule freq_norm_low)
  then show "(1 - alpha) * freq_norm (zipf g) = 0" by simp
  show "hybrid_score zipf g C alpha =
      (case expected_entropy g C of Inl e \<Rightarrow> Inl e | Inr H \<Rightarrow> Inr (alpha * H))"
    by (simp add: hybrid_score_freq_norm z split: sum.splits)
next
  assume "length g = 5 \<and> (\<forall>w \<in> set C. length w = 5)"
  then show "\<exists>s. hybrid_score zipf g C alpha = Inr s"
    by (intro hybrid_score_total) auto
qed

theorem hybrid_score_blend_witness:
  "(0 :: real) \<le> 7 / 10 \<and> (7 / 10 :: real) \<le> 1
   \<and> hybrid_score (\<lambda>w. 0) ''crane'' [''crane'', ''trace''] (7 / 10) = Inr (7 / 10)
   \<and> hybrid_score (\<lambda>w. 3) ''crane'' [''crane'', ''trace''] (7 / 10)
       = Inr (7 / 10 * 1 + (1 - 7 / 10) * freq_norm 3)"
proof -
  have "hybrid_score (\<lambda>w. 0) ''crane'' [''crane'', ''trace''] (7 / 10) = Inr (7 / 10)"
    using hybrid_score_blend [where alpha = "7 / 10" and zipf = "\<lambda>w. 0" and g = "''crane''"
        and C = "[''crane'', ''trace'']"]
    by (simp add: ee_crane)
  moreover have "hybrid_score (\<lambda>w. 3) ''crane'' [''crane'', ''trace''] (7 / 10)
       = Inr (7 / 10 * 1 + (1 - 7 / 10) * freq_norm 3)"
    using hybrid_score_blend [where alpha = "7 / 10" and zipf = "\<lambda>w. 3" and g = "''crane''"
        and C = "[''crane'', ''trace'']"]
    by (simp add: ee_crane)
  ultimately show ?thesis by simp
qed

text \<open>
  C5: a call of \<^verbatim>\<open>guess\<close> leaves the candidates a subset of what they were, so their
  number does not grow; it decreases strictly when the call returns and some candidate's
  feedback against the guessed word differs from the supplied pattern. In a session
  (the states reached from construction by \<^verbatim>\<open>guess\<close> with words of five letters and
  by \<^verbatim>\<open>reset\<close>) the call returns, appends the record to the history, and afterwards
  every remaining candidate \<open>w\<close> has \<open>feedback_pattern g w = p\<close> for every record
  \<open>(g, p)\<close> of the history.
\<close>

theorem guess_shrinks_candidates:
  assumes "WordleSolver_guess zipf word pattern alpha topk r s = (out, s')"
  shows "set (candidates s') \<subseteq> set (candidates s)
    \<and> length (candidates s') \<le> length (candidates s)
    \<and> ((\<exists>suggested. out = Inr suggested)
        \<and> (\<exists>w \<in> set (candidates s). feedback_pattern word w \<noteq> Inr pattern) \<longrightarrow>
          length (candidates s') < length (candidates s))
    \<and> (reachable zipf s \<and> length word = 5 \<longrightarrow>
          (\<exists>suggested. out = Inr suggested)
          \<and> history s' = history s @ [(word, pattern)]
          \<and> (\<forall>(g, p) \<in> set (history s'). \<forall>w \<in> set (candidates s').
                feedback_pattern g w = Inr p))"
proof (intro conjI impI)
  note gc = guess_candidates[OF assms]
  show "set (candidates s') \<subseteq> set (candidates s)" using gc by auto
  show "length (candidates s') \<le> length (candidates s)" using gc by auto
  {
    assume a: "(\<exists>suggested. out = Inr suggested)
        \<and> (\<exists>w \<in> set (candidates s). feedback_pattern word w \<noteq> Inr pattern)"
    then obtain w where w: "w \<in> set (candidates s)"
      "\<not> feedback_pattern word w = Inr pattern" by blast
    from a gc have "candidates s'
        = filter (\<lambda>w. feedback_pattern word w = Inr pattern) (candidates s)" by auto
    moreover have "length (filter (\<lambda>w. feedback_pattern word w = Inr pattern) (candidates s))
        < length (candidates s)"
      using w by (rule length_filter_less)
    ultimately show "length (candidates s') < length (candidates s)" by simp
  }
  {
    assume "reachable zipf s \<and> length word = 5"
    then have r: "reachable zipf s" and l: "length word = 5" by auto
    have inv: "session_inv s" using r by (rule reachable_inv)
    then have c: "\<forall>w \<in> set (candidates s). length w = 5"
      and a: "\<forall>w \<in> set (all_words s). length w = 5" by (auto simp: session_inv_def)
    show "\<exists>suggested. out = Inr suggested"
      using guess_returns[OF c a l, of zipf pattern alpha topk r] assms by simp
    show "history s' = history s @ [(word, pattern)]"
      using guess_state[OF c l, of zipf pattern alpha topk r] assms by simp
    have "session_inv s'"
      using reachable_inv[OF reachable.guess[OF r l, of pattern alpha topk r]] assms
      by simp
    then show "\<forall>(g, p) \<in> set (history s'). \<forall>w \<in> set (candidates s').
        feedback_pattern g w = Inr p"
      by (simp add: session_inv_def)
  }
qed

theorem guess_shrinks_candidates_witness:
  "reachable (\<lambda>w. 3) demo_solver \<and> length ''crane'' = 5
   \<and> WordleSolver_guess (\<lambda>w. 3) ''crane'' [1, 2, 2, 0, 2] (7 / 10) 5 False demo_solver
       = (Inr [''trace''],
          \<lparr> all_words = [''crane'', ''plate'', ''slate'', ''stale'', ''trace''],
            candidates = [''trace''],
            history = [(''crane'', [1, 2, 2, 0, 2])] \<rparr>)
   \<and> feedback_pattern ''crane'' ''crane'' \<noteq> Inr [1, 2, 2, 0, 2]
   \<and> length [''trace''] < length (candidates demo_solver)
   \<and> feedback_pattern ''crane'' ''trace'' = Inr [1, 2, 2, 0, 2]"
proof -
  have r: "reachable (\<lambda>w. 3) demo_solver"
    unfolding demo_solver_def by (rule reachable.init)
  note g = demo_guess [where zipf = "\<lambda>w. 3" and alpha = "7 / 10" and topk = 5 and r = False]
  note t = guess_shrinks_candidates [OF g]
  have "length [''trace''] < length (candidates demo_solver)
      \<and> feedback_pattern ''crane'' ''trace'' = Inr [1, 2, 2, 0, 2]"
    using t r by (simp add: demo_solver_eq fp_crane_crane)
  then show ?thesis using r g by (simp add: fp_crane_crane)
qed


text \<open>
  C7: when filtering in \<^verbatim>\<open>guess\<close> leaves no candidate, the call raises nothing and
  returns the empty list; the solver is left with no candidates (the state \<open>s'\<close>), the
  guess endpoint answers with no suggestions, zero candidates remaining, not solved, and
  the message "No candidates remain - check your pattern"; every further guess in that
  state again returns the empty list and leaves no candidates; and \<^verbatim>\<open>reset\<close> gives
  the solver its full dictionary and an empty history back, a state of the session again.
\<close>

theorem guess_exhausted:
  assumes "filter_candidates (candidates s) word pattern = Inr []"
    and "s' = s\<lparr> history := history s @ [(word, pattern)], candidates := [] \<rparr>"
  shows "WordleSolver_guess zipf word pattern alpha topk r s = (Inr [], s')
    \<and> (sessions (req_session_id request) = Some s
        \<and> str_lower (req_word request) = word \<and> str_isalpha word \<and> length word = 5
        \<and> req_pattern request = pattern \<and> list_all (\<lambda>p. p \<in> set [0, 1, 2]) pattern
        \<and> req_alpha request = alpha \<and> req_topk request = topk
        \<and> req_restrict_guesses request = r
      \<longrightarrow> submit_guess zipf sessions request
          = (Inr \<lparr> suggestions = [], candidates_remaining = 0, is_solved = False,
                   message = Some ''No candidates remain - check your pattern'' \<rparr>,
             sessions(req_session_id request \<mapsto> s')))
    \<and> fst (WordleSolver_guess zipf word2 pattern2 alpha2 topk2 r2 s') = Inr []
    \<and> candidates (snd (WordleSolver_guess zipf word2 pattern2 alpha2 topk2 r2 s')) = []
    \<and> WordleSolver_reset s' = s\<lparr> candidates := all_words s, history := [] \<rparr>
    \<and> (reachable zipf s \<and> length word = 5 \<longrightarrow> reachable zipf (WordleSolver_reset s'))"
proof (intro conjI impI)
  show g: "WordleSolver_guess zipf word pattern alpha topk r s = (Inr [], s')"
    unfolding assms(2) by (rule guess_exhausted_state[OF assms(1)])
  have c: "candidates s' = []" by (simp add: assms(2))
  show "fst (WordleSolver_guess zipf word2 pattern2 alpha2 topk2 r2 s') = Inr []"
    "candidates (snd (WordleSolver_guess zipf word2 pattern2 alpha2 topk2 r2 s')) = []"
    by (simp_all add: guess_no_candidates[OF c])
  show "WordleSolver_reset s' = s\<lparr> candidates := all_words s, history := [] \<rparr>"
    by (simp add: assms(2) WordleSolver_reset_def)
  {
    assume "reachable zipf s \<and> length word = 5"
    then have "reachable zipf (snd (WordleSolver_guess zipf word pattern alpha topk r s))"
      by (intro reachable.guess) auto
    then have "reachable zipf s'" by (simp add: g)
    then show "reachable zipf (WordleSolver_reset s')" by (rule reachable.reset)
  }
  {
    assume a: "sessions (req_session_id request) = Some s
        \<and> str_lower (req_word request) = word \<and> str_isalpha word \<and> length word = 5
        \<and> req_pattern request = pattern \<and> list_all (\<lambda>p. p \<in> set [0, 1, 2]) pattern
        \<and> req_alpha request = alpha \<and> req_topk request = topk
        \<and> req_restrict_guesses request = r"
    then show "submit_guess zipf sessions request
          = (Inr \<lparr> suggestions = [], candidates_remaining = 0, is_solved = False,
                   message = Some ''No candidates remain - check your pattern'' \<rparr>,
             sessions(req_session_id request \<mapsto> s'))"
      using g c by (simp add: submit_guess_def Let_def)
  }
qed


theorem guess_exhausted_witness:
  "filter_candidates (candidates demo_solver) ''trace'' [2, 2, 2, 2, 0] = Inr []
   \<and> WordleSolver_guess (\<lambda>w. 3) ''trace'' [2, 2, 2, 2, 0] (7 / 10) 5 False demo_solver
       = (Inr [], demo_solver\<lparr> history := [(''trace'', [2, 2, 2, 2, 0])], candidates := [] \<rparr>)
   \<and> fst (submit_guess (\<lambda>w. 3) [''s1'' \<mapsto> demo_solver] demo_request)
       = Inr \<lparr> suggestions = [], candidates_remaining = 0, is_solved = False,
               message = Some ''No candidates remain - check your pattern'' \<rparr>
   \<and> candidates (WordleSolver_reset
         (demo_solver\<lparr> history := [(''trace'', [2, 2, 2, 2, 0])], candidates := [] \<rparr>))
       = [''crane'', ''plate'', ''slate'', ''stale'', ''trace'']"
proof -
  let ?s' = "demo_solver\<lparr> history := [(''trace'', [2, 2, 2, 2, 0])], candidates := [] \<rparr>"
  have h: "?s' = demo_solver\<lparr> history := history demo_solver @ [(''trace'', [2, 2, 2, 2, 0])],
      candidates := [] \<rparr>"
    by (simp add: demo_solver_eq)
  note t = guess_exhausted [OF demo_filter_none h, where zipf = "\<lambda>w. 3" and alpha = "7 / 10"
      and topk = 5 and r = False and sessions = "[''s1'' \<mapsto> demo_solver]"
      and request = demo_request and ?word2.0 = "''crane''" and ?pattern2.0 = "[]"
      and ?alpha2.0 = 0 and ?topk2.0 = 0 and ?r2.0 = False]
  have g: "WordleSolver_guess (\<lambda>w. 3) ''trace'' [2, 2, 2, 2, 0] (7 / 10) 5 False demo_solver
       = (Inr [], ?s')"
    using t by blast
  have "submit_guess (\<lambda>w. 3) [''s1'' \<mapsto> demo_solver] demo_request
       = (Inr \<lparr> suggestions = [], candidates_remaining = 0, is_solved = False,
               message = Some ''No candidates remain - check your pattern'' \<rparr>,
          [''s1'' \<mapsto> demo_solver](req_session_id demo_request \<mapsto> ?s'))"
    using t demo_word by (simp add: demo_request_def)
  then have m: "fst (submit_guess (\<lambda>w. 3) [''s1'' \<mapsto> demo_solver] demo_request)
       = Inr \<lparr> suggestions = [], candidates_remaining = 0, is_solved = False,
               message = Some ''No candidates remain - check your pattern'' \<rparr>"
    by simp
  have "candidates (WordleSolver_reset ?s') = [''crane'', ''plate'', ''slate'', ''stale'', ''trace'']"
    using t by (simp add: demo_solver_eq)
  then show ?thesis using demo_filter_none g m by simp
qed

end
